theory Spec2Isabelle
  imports Main "HOL-Library.Sublist" "HOL-Library.AList"
begin

text \<open>
  The lexer and the parser of the Go package \<open>ical\<close>, which turn the text of an
  iCalendar resource into a \<open>Calendar\<close>, as functions of HOL; and what holds of them.
  The lexer's goroutine and its channel become the list of the tokens it sends; a panic,
  a loop that never ends and a nil pointer are results of their own.
\<close>

section \<open>Strings, bytes and runes\<close>

text \<open>
  A Go string is a sequence of bytes: it is a \<open>string\<close> here (a list of 8-bit
  \<open>char\<close>s). A rune is an \<open>int\<close>; the lexer's end marker \<open>eof\<close> is \<open>-1\<close>.
\<close>

type_synonym rune = int

definition eof :: rune where
  "eof = -1"

definition rune_of :: "char \<Rightarrow> rune" where
  "rune_of ch = int (of_char ch)"

definition CR :: char where
  "CR = CHR 0x0D"

definition LF :: char where
  "LF = CHR 0x0A"

definition strings_HasPrefix :: "string \<Rightarrow> string \<Rightarrow> bool" where
  "strings_HasPrefix s pre = (take (length pre) s = pre)"

definition strings_HasSuffix :: "string \<Rightarrow> string \<Rightarrow> bool" where
  "strings_HasSuffix s suf = (length suf \<le> length s \<and> drop (length s - length suf) s = suf)"

subsection \<open>The Go library functions on runes that the lexer calls\<close>

definition RuneError :: rune where
  "RuneError = 0xFFFD"

text \<open>
  \<open>utf8.DecodeRuneInString\<close>: the first rune of a string and its width in bytes. An
  empty string gives \<open>(RuneError, 0)\<close>, an invalid or truncated encoding
  \<open>(RuneError, 1)\<close>. The second byte of a sequence is checked against the range that
  belongs to the first byte (no overlong forms, no surrogates, nothing above U+10FFFF).
\<close>

fun utf8_DecodeRuneInString :: "string \<Rightarrow> rune \<times> nat" where
  "utf8_DecodeRuneInString [] = (RuneError, 0)"
| "utf8_DecodeRuneInString (ch # rest) =
     (let s0 = rune_of ch in
      if s0 < 0x80 then (s0, 1)
      else if s0 < 0xC2 \<or> 0xF4 < s0 then (RuneError, 1)
      else
        let sz = (if s0 < 0xE0 then 2 else if s0 < 0xF0 then 3 else (4::nat));
            lo = (if s0 = 0xE0 then 0xA0 else if s0 = 0xF0 then 0x90 else 0x80);
            hi = (if s0 = 0xED then 0x9F else if s0 = 0xF4 then 0x8F else 0xBF)
        in
        if length rest + 1 < sz then (RuneError, 1)
        else
          let s1 = rune_of (rest ! 0) in
          if s1 < lo \<or> hi < s1 then (RuneError, 1)
          else if sz \<le> 2 then ((s0 mod 0x20) * 0x40 + s1 mod 0x40, 2)
          else
            let s2 = rune_of (rest ! 1) in
            if s2 < 0x80 \<or> 0xBF < s2 then (RuneError, 1)
            else if sz \<le> 3
              then ((s0 mod 0x10) * 0x1000 + (s1 mod 0x40) * 0x40 + s2 mod 0x40, 3)
            else
              let s3 = rune_of (rest ! 2) in
              if s3 < 0x80 \<or> 0xBF < s3 then (RuneError, 1)
              else ((s0 mod 0x08) * 0x40000 + (s1 mod 0x40) * 0x1000
                      + (s2 mod 0x40) * 0x40 + s3 mod 0x40, 4))"

text \<open>
  \<open>unicode.IsControl\<close> is decided inside Latin-1 for every rune. \<open>unicode.IsLetter\<close>
  and \<open>unicode.IsDigit\<close> are given exactly up to U+00FF (Go answers these from its
  Latin-1 property table); above U+00FF Go searches the range tables \<open>unicode.Letter\<close>
  and \<open>unicode.Digit\<close>, which are data of the Go distribution and not of this
  repository: the two tables are left unspecified, so nothing is asserted about names
  that contain such code points.
\<close>

definition unicode_Letter_table :: "rune \<Rightarrow> bool" where
  "unicode_Letter_table = undefined"

definition unicode_Digit_table :: "rune \<Rightarrow> bool" where
  "unicode_Digit_table = undefined"

definition unicode_IsControl :: "rune \<Rightarrow> bool" where
  "unicode_IsControl r = ((0 \<le> r \<and> r \<le> 0x1F) \<or> (0x7F \<le> r \<and> r \<le> 0x9F))"

definition unicode_IsLetter :: "rune \<Rightarrow> bool" where
  "unicode_IsLetter r =
     (if r < 0 then False
      else if r \<le> 0xFF then
        (0x41 \<le> r \<and> r \<le> 0x5A) \<or> (0x61 \<le> r \<and> r \<le> 0x7A)
        \<or> r = 0xAA \<or> r = 0xB5 \<or> r = 0xBA
        \<or> (0xC0 \<le> r \<and> r \<le> 0xD6) \<or> (0xD8 \<le> r \<and> r \<le> 0xF6) \<or> 0xF8 \<le> r
      else unicode_Letter_table r)"

definition unicode_IsDigit :: "rune \<Rightarrow> bool" where
  "unicode_IsDigit r =
     (if r \<le> 0xFF then 0x30 \<le> r \<and> r \<le> 0x39 else unicode_Digit_table r)"

definition utf8_ValidRune :: "rune \<Rightarrow> bool" where
  "utf8_ValidRune r = ((0 \<le> r \<and> r < 0xD800) \<or> (0xDFFF < r \<and> r \<le> 0x10FFFF))"

subsection \<open>Rune helper functions of the lexer\<close>

definition isName :: "rune \<Rightarrow> bool" where
  "isName r = (unicode_IsLetter r \<or> unicode_IsDigit r \<or> r = rune_of CHR ''-'')"

definition isQSafeChar :: "rune \<Rightarrow> bool" where
  "isQSafeChar r = (\<not> unicode_IsControl r \<and> r \<noteq> rune_of CHR 0x22)"

definition isSafeChar :: "rune \<Rightarrow> bool" where
  "isSafeChar r =
     (\<not> unicode_IsControl r \<and> r \<noteq> rune_of CHR 0x22 \<and> r \<noteq> rune_of CHR '';''
      \<and> r \<noteq> rune_of CHR '':'' \<and> r \<noteq> rune_of CHR '','')"

definition isValueChar :: "rune \<Rightarrow> bool" where
  "isValueChar r = (r = rune_of CHR 0x09 \<or> (\<not> unicode_IsControl r \<and> utf8_ValidRune r))"

section \<open>The lexer\<close>

datatype itemType =
    itemError | itemEOF | itemLineEnd
  | itemComponent | itemParamName | itemParamValue | itemValue
  | itemColon | itemSemiColon | itemEqual | itemComma
  | itemKeyword
  | itemBeginVCalendar | itemEndVCalendar
  | itemBeginVEvent | itemEndVEvent
  | itemBeginVAlarm | itemEndVAlarm

text \<open>The \<open>iota\<close> number of a token kind: the code compares kinds with \<open>>\<close>.\<close>

fun itemType_ord :: "itemType \<Rightarrow> nat" where
  "itemType_ord itemError = 0"
| "itemType_ord itemEOF = 1"
| "itemType_ord itemLineEnd = 2"
| "itemType_ord itemComponent = 3"
| "itemType_ord itemParamName = 4"
| "itemType_ord itemParamValue = 5"
| "itemType_ord itemValue = 6"
| "itemType_ord itemColon = 7"
| "itemType_ord itemSemiColon = 8"
| "itemType_ord itemEqual = 9"
| "itemType_ord itemComma = 10"
| "itemType_ord itemKeyword = 11"
| "itemType_ord itemBeginVCalendar = 12"
| "itemType_ord itemEndVCalendar = 13"
| "itemType_ord itemBeginVEvent = 14"
| "itemType_ord itemEndVEvent = 15"
| "itemType_ord itemBeginVAlarm = 16"
| "itemType_ord itemEndVAlarm = 17"

text \<open>
  A token. \<open>ityp\<close> and \<open>ipos\<close> are the fields \<open>typ\<close> and \<open>pos\<close> of the Go struct
  (renamed: \<open>typ\<close> is a keyword here and the lexer has a field \<open>pos\<close> too). \<open>val\<close> is the slice of the input, or for an error token the message of
  \<open>errorf\<close>: the format string, with the rune that its \<open>%#U\<close> verb prints kept apart
  in \<open>args\<close> instead of being rendered.
\<close>

record item =
  ityp :: itemType
  ipos :: nat
  val :: string
  args :: "rune list"

text \<open>The zero value of the struct: what a receive on the closed channel yields.\<close>

definition zero_item :: item where
  "zero_item = \<lparr>ityp = itemError, ipos = 0, val = [], args = []\<rparr>"

record lexer =
  name :: string
  input :: string
  start :: nat
  pos :: nat
  width :: nat

text \<open>
  The state functions; the Go value \<open>nil\<close> (stop) is \<open>None\<close> of \<open>stateFn option\<close>.
\<close>

datatype stateFn =
  LexComponent | LexNewLine | LexContentLine | LexParamName | LexParamValue | LexValue

text \<open>
  How a goroutine fails to return: a run-time panic (here always an index or slice
  expression out of range, or a nil dereference), or never coming back (a loop that spins,
  a receive that is never answered).
\<close>

datatype fault = Panic string | Forever

text \<open>How the token stream ends: the channel is closed, or the lexer goroutine faults.\<close>

datatype halt = Closed | Faulted fault

definition beginVCalendar :: string where "beginVCalendar = ''BEGIN:VCALENDAR''"
definition endVCalendar :: string where "endVCalendar = ''END:VCALENDAR''"
definition beginVEvent :: string where "beginVEvent = ''BEGIN:VEVENT''"
definition endVEvent :: string where "endVEvent = ''END:VEVENT''"
definition beginVAlarm :: string where "beginVAlarm = ''BEGIN:VALARM''"
definition endVAlarm :: string where "endVAlarm = ''END:VALARM''"
definition crlf :: string where "crlf = [CR, LF]"

text \<open>
  \<open>emit\<close> sends the token \<open>input[start:pos]\<close>; the slice expression panics unless
  \<open>start \<le> pos \<le> len(input)\<close>.
\<close>

definition emit :: "itemType \<Rightarrow> lexer \<Rightarrow> fault + item \<times> lexer" where
  "emit t l =
     (if start l \<le> pos l \<and> pos l \<le> length (input l)
      then Inr (\<lparr>ityp = t, ipos = start l,
                 val = take (pos l - start l) (drop (start l) (input l)), args = []\<rparr>,
                l\<lparr>start := pos l\<rparr>)
      else Inl (Panic ''slice bounds out of range''))"

definition ignore :: "lexer \<Rightarrow> lexer" where
  "ignore l = l\<lparr>start := pos l\<rparr>"

definition backup :: "lexer \<Rightarrow> lexer" where
  "backup l = l\<lparr>pos := pos l - width l\<rparr>"

definition "next" :: "lexer \<Rightarrow> rune \<times> lexer" where
  "next l =
     (if pos l \<ge> length (input l) then (eof, l\<lparr>width := 0\<rparr>)
      else
        let (r, w) = utf8_DecodeRuneInString (drop (pos l) (input l))
        in (r, l\<lparr>pos := pos l + w, width := w\<rparr>))"

definition peek :: "lexer \<Rightarrow> rune \<times> lexer" where
  "peek l = (let (r, l') = next l in (r, backup l'))"

text \<open>The token that \<open>errorf\<close> sends; its result is always \<open>nil\<close>.\<close>

definition errorf :: "string \<Rightarrow> rune list \<Rightarrow> lexer \<Rightarrow> item" where
  "errorf fmt rs l = \<lparr>ityp = itemError, ipos = start l, val = fmt, args = rs\<rparr>"

subsection \<open>The scanning loop\<close>

text \<open>
  The loop \<^verbatim>\<open>for { r = l.next(); if !ok(r) { l.backup(); ...; break } }\<close> that five
  state functions run, up to and with its \<open>backup\<close>. At the end of the input \<open>next\<close>
  returns \<open>eof\<close> and moves nothing: if \<open>ok\<close> accepts \<open>eof\<close> the loop repeats the same
  step for ever.
\<close>

lemma DecodeRune_width:
  "s \<noteq> [] \<Longrightarrow> 1 \<le> snd (utf8_DecodeRuneInString s) \<and> snd (utf8_DecodeRuneInString s) \<le> length s"
proof (cases s)
  case Nil
  assume "s \<noteq> []"
  with Nil show ?thesis by simp
next
  case (Cons ch rest)
  show ?thesis
    unfolding Cons utf8_DecodeRuneInString.simps Let_def
    by (simp add: Suc_le_eq)
qed

lemma next_pos:
  assumes "next l = (r, l')"
  shows "input l' = input l" and "pos l \<le> pos l'" and "pos l' \<le> max (pos l) (length (input l))"
    and "pos l < length (input l) \<Longrightarrow> pos l < pos l'"
    and "pos l' - width l' = pos l"
proof -
  show "input l' = input l"
    using assms by (auto simp: next_def split: if_splits prod.splits)
  have w: "pos l < length (input l) \<Longrightarrow>
      1 \<le> snd (utf8_DecodeRuneInString (drop (pos l) (input l)))
      \<and> snd (utf8_DecodeRuneInString (drop (pos l) (input l))) \<le> length (input l) - pos l"
    using DecodeRune_width [of "drop (pos l) (input l)"] by simp
  show "pos l \<le> pos l'"
    using assms by (auto simp: next_def split: if_splits prod.splits)
  show "pos l' \<le> max (pos l) (length (input l))"
    using assms w by (auto simp: next_def split: if_splits prod.splits)
  show "pos l < length (input l) \<Longrightarrow> pos l < pos l'"
    using assms w by (auto simp: next_def split: if_splits prod.splits)
  show "pos l' - width l' = pos l"
    using assms by (auto simp: next_def split: if_splits prod.splits)
qed

function scanRun :: "(rune \<Rightarrow> bool) \<Rightarrow> lexer \<Rightarrow> fault + lexer" where
  "scanRun ok l =
     (let (r, l') = next l in
      if \<not> ok r then Inr (backup l')
      else if length (input l) \<le> pos l then Inl Forever
      else scanRun ok l')"
  by pat_completeness auto
termination
proof (relation "measure (\<lambda>(ok, l). length (input l) - pos l)")
  show "wf (measure (\<lambda>(ok, l). length (input l) - pos l))"
    by simp
next
  fix ok :: "rune \<Rightarrow> bool" and l :: lexer and x :: "rune \<times> lexer" and r l'
  assume x: "x = next l" "(r, l') = x" and more: "\<not> length (input l) \<le> pos l"
  from x have n: "next l = (r, l')" by simp
  from more have "pos l < pos l'" and "pos l' \<le> length (input l)" and "input l' = input l"
    using next_pos [OF n] by auto
  then show "((ok, l'), (ok, l)) \<in> measure (\<lambda>(ok, l). length (input l) - pos l)"
    by simp
qed

subsection \<open>State functions\<close>

text \<open>
  A state function returns the tokens it sent, in order, and then either the fault that
  ended the goroutine inside it or the next state (\<open>None\<close> for \<open>nil\<close>) with the lexer as
  it left it. \<open>sending\<close> is one \<open>emit\<close> followed by the rest of the function body.
\<close>

type_synonym 'a lexing = "item list \<times> (fault + 'a)"

definition sending ::
  "itemType \<Rightarrow> lexer \<Rightarrow> (lexer \<Rightarrow> 'a lexing) \<Rightarrow> 'a lexing" where
  "sending t l rest =
     (case emit t l of
        Inl f \<Rightarrow> ([], Inl f)
      | Inr (it, l') \<Rightarrow> (case rest l' of (its, r) \<Rightarrow> (it # its, r)))"

text \<open>The slice \<open>l.input[l.pos:]\<close>.\<close>

definition inputFromPos :: "lexer \<Rightarrow> fault + string" where
  "inputFromPos l =
     (if pos l \<le> length (input l) then Inr (drop (pos l) (input l))
      else Inl (Panic ''slice bounds out of range''))"

text \<open>One of the six branches of \<open>lexComponent\<close> for a fixed BEGIN/END literal.\<close>

definition lexDelimiter :: "itemType \<Rightarrow> string \<Rightarrow> lexer \<Rightarrow> (stateFn option \<times> lexer) lexing" where
  "lexDelimiter t lit l =
     sending t (l\<lparr>pos := pos l + length lit\<rparr>) (\<lambda>l'. ([], Inr (Some LexNewLine, l')))"

definition lexComponent :: "lexer \<Rightarrow> (stateFn option \<times> lexer) lexing" where
  "lexComponent l =
     (case inputFromPos l of
        Inl f \<Rightarrow> ([], Inl f)
      | Inr rest \<Rightarrow>
          if strings_HasPrefix rest beginVCalendar then lexDelimiter itemBeginVCalendar beginVCalendar l
          else if strings_HasPrefix rest endVCalendar then lexDelimiter itemEndVCalendar endVCalendar l
          else if strings_HasPrefix rest beginVEvent then lexDelimiter itemBeginVEvent beginVEvent l
          else if strings_HasPrefix rest endVEvent then lexDelimiter itemEndVEvent endVEvent l
          else if strings_HasPrefix rest beginVAlarm then lexDelimiter itemBeginVAlarm beginVAlarm l
          else if strings_HasPrefix rest endVAlarm then lexDelimiter itemEndVAlarm endVAlarm l
          else
            (case scanRun isName l of
               Inl f \<Rightarrow> ([], Inl f)
             | Inr l' \<Rightarrow>
                 sending itemComponent l' (\<lambda>l''. ([], Inr (Some LexContentLine, l'')))))"

text \<open>
  \<open>lexNewLine\<close>. When the input does not continue with CRLF the error token is sent, but
  the result of \<open>errorf\<close> is dropped (there is no \<open>return\<close>): the function goes on to
  advance \<open>pos\<close> by two and to \<open>emit\<close>.
\<close>

definition lexNewLine :: "lexer \<Rightarrow> (stateFn option \<times> lexer) lexing" where
  "lexNewLine l =
     (let (r, l1) = peek l in
      if r = eof then ([], Inr (None, l1))
      else
        (case inputFromPos l1 of
           Inl f \<Rightarrow> ([], Inl f)
         | Inr rest \<Rightarrow>
             let errs = (if \<not> strings_HasPrefix rest crlf
                         then [errorf (''unable to find end of line '' @ [CHR 0x22] @ ''CRLF'' @ [CHR 0x22]) [] l1]
                         else [])
             in
             (case sending itemLineEnd (l1\<lparr>pos := pos l1 + length crlf\<rparr>)
                     (\<lambda>l2. let (r', l3) = next l2 in
                            if r' = eof
                            then sending itemEOF l3 (\<lambda>l4. ([], Inr (None, l4)))
                            else ([], Inr (Some LexComponent, backup l3)))
              of (its, res) \<Rightarrow> (errs @ its, res))))"

definition lexContentLine :: "lexer \<Rightarrow> (stateFn option \<times> lexer) lexing" where
  "lexContentLine l =
     (let (r, l1) = next l in
      if r = rune_of CHR '';'' then sending itemSemiColon l1 (\<lambda>l2. ([], Inr (Some LexParamName, l2)))
      else if r = rune_of CHR '':'' then sending itemColon l1 (\<lambda>l2. ([], Inr (Some LexValue, l2)))
      else if r = rune_of CHR '','' then sending itemComma l1 (\<lambda>l2. ([], Inr (Some LexParamValue, l2)))
      else ([errorf ''unrecognized character in action: %#U'' [r] l1], Inr (None, l1)))"

definition lexParamName :: "lexer \<Rightarrow> (stateFn option \<times> lexer) lexing" where
  "lexParamName l =
     (case scanRun isName l of
        Inl f \<Rightarrow> ([], Inl f)
      | Inr l1 \<Rightarrow>
          sending itemParamName l1
            (\<lambda>l2. let (r, l3) = next l2 in
                   if r = rune_of CHR ''=''
                   then sending itemEqual l3 (\<lambda>l4. ([], Inr (Some LexParamValue, l4)))
                   else ([errorf (''missing '' @ [CHR 0x22] @ ''='' @ [CHR 0x22]
                                    @ '' after parameter name, got %#U'') [r] l3],
                         Inr (None, l3))))"

text \<open>
  \<open>lexParamValue\<close>. After a quoted value without its closing quote the error token is
  sent, and again the result of \<open>errorf\<close> is dropped: the function returns
  \<open>lexContentLine\<close> all the same.
\<close>

definition lexParamValue :: "lexer \<Rightarrow> (stateFn option \<times> lexer) lexing" where
  "lexParamValue l =
     (let (r, l1) = next l in
      if r = rune_of CHR 0x22 then
        (case scanRun isQSafeChar (ignore l1) of
           Inl f \<Rightarrow> ([], Inl f)
         | Inr l2 \<Rightarrow>
             sending itemParamValue l2
               (\<lambda>l3. let (r', l4) = next l3 in
                      if r' = rune_of CHR 0x22 then ([], Inr (Some LexContentLine, ignore l4))
                      else ([errorf (''missing closing '' @ [CHR 0x22] @ '' for parameter value'') [] l4],
                            Inr (Some LexContentLine, l4))))
      else
        (case scanRun isSafeChar (backup l1) of
           Inl f \<Rightarrow> ([], Inl f)
         | Inr l2 \<Rightarrow> sending itemParamValue l2 (\<lambda>l3. ([], Inr (Some LexContentLine, l3)))))"

definition lexValue :: "lexer \<Rightarrow> (stateFn option \<times> lexer) lexing" where
  "lexValue l =
     (case scanRun isValueChar l of
        Inl f \<Rightarrow> ([], Inl f)
      | Inr l1 \<Rightarrow> sending itemValue l1 (\<lambda>l2. ([], Inr (Some LexNewLine, l2))))"

fun call :: "stateFn \<Rightarrow> lexer \<Rightarrow> (stateFn option \<times> lexer) lexing" where
  "call LexComponent = lexComponent"
| "call LexNewLine = lexNewLine"
| "call LexContentLine = lexContentLine"
| "call LexParamName = lexParamName"
| "call LexParamValue = lexParamValue"
| "call LexValue = lexValue"

declare scanRun.simps [simp del]

subsection \<open>The state machine terminates\<close>

text \<open>
  Every transition between states moves \<open>pos\<close> forward or goes to a state that will:
  twice the bytes left, plus one in the states that may hand over without reading,
  decreases at each step of \<open>run\<close>.
\<close>

lemma scanRun_pos:
  "scanRun ok l = Inr l' \<Longrightarrow>
     input l' = input l \<and> pos l \<le> pos l' \<and> pos l' \<le> max (pos l) (length (input l))"
proof (induction ok l rule: scanRun.induct)
  case (1 ok l)
  obtain r l1 where n: "next l = (r, l1)" by (cases "next l")
  note np = next_pos [OF n]
  show ?case
  proof (cases "ok r")
    case False
    with "1.prems" n have "l' = backup l1" by (simp add: scanRun.simps [of ok l])
    with np show ?thesis by (simp add: backup_def)
  next
    case True
    with "1.prems" n have more: "\<not> length (input l) \<le> pos l" and rec: "scanRun ok l1 = Inr l'"
      by (auto simp: scanRun.simps [of ok l] split: if_splits)
    from "1.IH" [OF n [symmetric] refl _ more rec] True
    have "input l' = input l1 \<and> pos l1 \<le> pos l' \<and> pos l' \<le> max (pos l1) (length (input l1))"
      by simp
    with np more show ?thesis by auto
  qed
qed

lemma emit_Inr:
  "emit t l = Inr (it, l') \<Longrightarrow> input l' = input l \<and> pos l' = pos l \<and> pos l \<le> length (input l)"
  by (auto simp: emit_def split: if_splits)

lemma sending_Inr:
  assumes "sending t l rest = (its, Inr x)"
  obtains it l1 its1 where "emit t l = Inr (it, l1)" and "rest l1 = (its1, Inr x)"
  using assms by (auto simp: sending_def split: sum.splits prod.splits)

definition lex_measure :: "stateFn \<Rightarrow> lexer \<Rightarrow> nat" where
  "lex_measure st l =
     2 * (length (input l) - pos l)
       + (if st = LexNewLine \<or> st = LexContentLine then 0 else 1)"


lemma sending_Inr_ex:
  "sending t l rest = (its, Inr x) \<Longrightarrow> \<exists>it l1 its1. emit t l = Inr (it, l1) \<and> rest l1 = (its1, Inr x)"
  by (auto simp: sending_def split: sum.splits prod.splits)

lemma sending_simple:
  "sending t l (\<lambda>l'. ([], Inr (f l'))) = (its, Inr x) \<Longrightarrow>
     \<exists>it l1. emit t l = Inr (it, l1) \<and> x = f l1"
  by (auto simp: sending_def split: sum.splits prod.splits)

lemma lexDelimiter_decreases:
  assumes "lexDelimiter t lit l = (its, Inr (Some st', l'))" and "lit \<noteq> []"
  shows "input l' = input l \<and> lex_measure st' l' < lex_measure LexComponent l"
proof -
  from assms(1) obtain it l1 where e: "emit t (l\<lparr>pos := pos l + length lit\<rparr>) = Inr (it, l1)"
    and x: "(Some st', l') = (Some LexNewLine, l1)"
    unfolding lexDelimiter_def by (blast dest: sending_simple)
  from emit_Inr [OF e] x assms(2) show ?thesis
    by (cases lit) (auto simp: lex_measure_def)
qed

lemma lexComponent_decreases:
  assumes "lexComponent l = (its, Inr (Some st', l'))"
  shows "input l' = input l \<and> lex_measure st' l' < lex_measure LexComponent l"
proof -
  have lits: "beginVCalendar \<noteq> []" "endVCalendar \<noteq> []" "beginVEvent \<noteq> []"
    "endVEvent \<noteq> []" "beginVAlarm \<noteq> []" "endVAlarm \<noteq> []"
    by (simp_all add: beginVCalendar_def endVCalendar_def beginVEvent_def endVEvent_def
        beginVAlarm_def endVAlarm_def)
  consider (delim) t lit where "lit \<noteq> []" and "lexDelimiter t lit l = (its, Inr (Some st', l'))"
    | (name) l1 where "scanRun isName l = Inr l1"
        and "sending itemComponent l1 (\<lambda>l''. ([], Inr (Some LexContentLine, l''))) = (its, Inr (Some st', l'))"
    using assms lits unfolding lexComponent_def
    by (auto split: sum.splits if_splits)
  then show ?thesis
  proof cases
    case delim
    then show ?thesis by (rule lexDelimiter_decreases [rotated])
  next
    case name
    from sending_simple [OF name(2)] obtain it where e: "emit itemComponent l1 = Inr (it, l')"
      and st: "st' = LexContentLine" by auto
    from scanRun_pos [OF name(1)] emit_Inr [OF e] st show ?thesis
      by (auto simp: lex_measure_def)
  qed
qed

lemma lexValue_decreases:
  assumes "lexValue l = (its, Inr (Some st', l'))"
  shows "input l' = input l \<and> lex_measure st' l' < lex_measure LexValue l"
proof -
  from assms obtain l1 where s: "scanRun isValueChar l = Inr l1"
    and snd: "sending itemValue l1 (\<lambda>l2. ([], Inr (Some LexNewLine, l2))) = (its, Inr (Some st', l'))"
    unfolding lexValue_def by (auto split: sum.splits)
  from sending_simple [OF snd] obtain it where e: "emit itemValue l1 = Inr (it, l')"
    and st: "st' = LexNewLine" by auto
  from scanRun_pos [OF s] emit_Inr [OF e] st show ?thesis
    by (auto simp: lex_measure_def)
qed

lemma lexContentLine_decreases:
  assumes "lexContentLine l = (its, Inr (Some st', l'))"
  shows "input l' = input l \<and> lex_measure st' l' < lex_measure LexContentLine l"
proof -
  obtain r l1 where n: "next l = (r, l1)" by (cases "next l")
  have "r \<noteq> eof"
    using assms n by (auto simp: lexContentLine_def eof_def rune_of_def split: if_splits)
  then have lt: "pos l < length (input l)"
    using n by (auto simp: next_def split: if_splits)
  from assms n obtain t where snd: "sending t l1 (\<lambda>l2. ([], Inr (Some st', l2))) = (its, Inr (Some st', l'))"
    by (auto simp: lexContentLine_def split: if_splits dest: sending_simple)
  from sending_simple [OF snd] obtain it where e: "emit t l1 = Inr (it, l')" by auto
  from next_pos [OF n] lt emit_Inr [OF e] show ?thesis
    by (auto simp: lex_measure_def)
qed

lemma lexParamName_decreases:
  assumes "lexParamName l = (its, Inr (Some st', l'))"
  shows "input l' = input l \<and> lex_measure st' l' < lex_measure LexParamName l"
proof -
  from assms obtain l1 where s: "scanRun isName l = Inr l1"
    and snd: "sending itemParamName l1
            (\<lambda>l2. let (r, l3) = next l2 in
                   if r = rune_of CHR ''=''
                   then sending itemEqual l3 (\<lambda>l4. ([], Inr (Some LexParamValue, l4)))
                   else ([errorf (''missing '' @ [CHR 0x22] @ ''='' @ [CHR 0x22]
                                    @ '' after parameter name, got %#U'') [r] l3],
                         Inr (None, l3))) = (its, Inr (Some st', l'))"
    unfolding lexParamName_def by (auto split: sum.splits)
  from snd obtain it l2 its1 where e1: "emit itemParamName l1 = Inr (it, l2)"
    and k: "(let (r, l3) = next l2 in
                   if r = rune_of CHR ''=''
                   then sending itemEqual l3 (\<lambda>l4. ([], Inr (Some LexParamValue, l4)))
                   else ([errorf (''missing '' @ [CHR 0x22] @ ''='' @ [CHR 0x22]
                                    @ '' after parameter name, got %#U'') [r] l3],
                         Inr (None, l3))) = (its1, Inr (Some st', l'))"
    by (rule sending_Inr)
  obtain r l3 where n: "next l2 = (r, l3)" by (cases "next l2")
  from k n have r: "r = rune_of CHR ''=''"
    and snd2: "sending itemEqual l3 (\<lambda>l4. ([], Inr (Some LexParamValue, l4))) = (its1, Inr (Some st', l'))"
    by (auto split: if_splits)
  from r have "r \<noteq> eof" by (simp add: eof_def rune_of_def)
  then have lt: "pos l2 < length (input l2)"
    using n by (auto simp: next_def split: if_splits)
  from sending_simple [OF snd2] obtain it2 where e2: "emit itemEqual l3 = Inr (it2, l')"
    and st: "st' = LexParamValue" by auto
  from scanRun_pos [OF s] emit_Inr [OF e1] next_pos [OF n] lt emit_Inr [OF e2] st show ?thesis
    by (auto simp: lex_measure_def)
qed


lemma backup_next:
  "next l = (r, l') \<Longrightarrow> input (backup l') = input l \<and> pos (backup l') = pos l"
  using next_pos [of l r l'] by (simp add: backup_def)

lemma lexNewLine_decreases:
  assumes "lexNewLine l = (its, Inr (Some st', l'))"
  shows "input l' = input l \<and> lex_measure st' l' < lex_measure LexNewLine l"
proof -
  obtain r l0 where n0: "next l = (r, l0)" by (cases "next l")
  define l1 where "l1 = backup l0"
  have p: "peek l = (r, l1)" by (simp add: peek_def n0 l1_def)
  note b1 = backup_next [OF n0, folded l1_def]
  from assms p obtain rest its1 where
    snd: "sending itemLineEnd (l1\<lparr>pos := pos l1 + length crlf\<rparr>)
                     (\<lambda>l2. let (r', l3) = next l2 in
                            if r' = eof
                            then sending itemEOF l3 (\<lambda>l4. ([], Inr (None, l4)))
                            else ([], Inr (Some LexComponent, backup l3))) = (its1, Inr (Some st', l'))"
    unfolding lexNewLine_def by (auto split: if_splits sum.splits prod.splits)
  from snd obtain it l2 its2 where e: "emit itemLineEnd (l1\<lparr>pos := pos l1 + length crlf\<rparr>) = Inr (it, l2)"
    and k: "(let (r', l3) = next l2 in
                            if r' = eof
                            then sending itemEOF l3 (\<lambda>l4. ([], Inr (None, l4)))
                            else ([], Inr (Some LexComponent, backup l3))) = (its2, Inr (Some st', l'))"
    by (rule sending_Inr)
  obtain r' l3 where n: "next l2 = (r', l3)" by (cases "next l2")
  from k n have st: "st' = LexComponent" and l': "l' = backup l3"
    by (auto split: if_splits dest: sending_simple)
  from emit_Inr [OF e] b1 backup_next [OF n] st l' show ?thesis
    by (auto simp: lex_measure_def crlf_def)
qed

lemma next_pos_all:
  "next l = (r, l') \<Longrightarrow>
     input l' = input l \<and> pos l \<le> pos l' \<and> pos l' \<le> max (pos l) (length (input l))
     \<and> pos l' - width l' = pos l"
  using next_pos [of l r l'] by simp

lemma lexParamValue_decreases:
  assumes "lexParamValue l = (its, Inr (Some st', l'))"
  shows "input l' = input l \<and> lex_measure st' l' < lex_measure LexParamValue l"
  using assms unfolding lexParamValue_def sending_def
  by (auto simp: lex_measure_def ignore_def backup_def
      split: prod.splits sum.splits if_splits
      dest!: next_pos_all scanRun_pos emit_Inr)

lemma call_decreases:
  "call st l = (its, Inr (Some st', l')) \<Longrightarrow>
     input l' = input l \<and> lex_measure st' l' < lex_measure st l"
  by (cases st)
    (simp_all add: lexComponent_decreases lexNewLine_decreases lexContentLine_decreases
      lexParamName_decreases lexParamValue_decreases lexValue_decreases)

text \<open>
  \<open>run\<close> calls state functions until one returns \<open>nil\<close> and then closes the
  channel. Its result is every token sent, in order, and how the stream ends.
\<close>

function run :: "stateFn \<Rightarrow> lexer \<Rightarrow> item list \<times> halt" where
  "run st l =
     (case call st l of
        (its, Inl f) \<Rightarrow> (its, Faulted f)
      | (its, Inr (None, l')) \<Rightarrow> (its, Closed)
      | (its, Inr (Some st', l')) \<Rightarrow> (case run st' l' of (rest, h) \<Rightarrow> (its @ rest, h)))"
  by pat_completeness auto
termination
proof (relation "measure (\<lambda>(st, l). lex_measure st l)", goal_cases)
  case 1
  show ?case by simp
next
  case (2 st l its res y nxt l' st')
  then have "call st l = (its, Inr (Some st', l'))" by simp
  from call_decreases [OF this] show ?case by simp
qed

declare run.simps [simp del]

text \<open>
  \<open>lex\<close> starts the goroutine; its value here is the whole stream that a consumer
  which keeps receiving is given.
\<close>

definition lex :: "string \<Rightarrow> string \<Rightarrow> item list \<times> halt" where
  "lex nm inp = run LexComponent \<lparr>name = nm, input = inp, start = 0, pos = 0, width = 0\<rparr>"

section \<open>The part of Go's package \<open>time\<close> that the parser uses\<close>

text \<open>
  Package \<open>time\<close> belongs to the Go distribution, not to this repository; what
  \<open>parseDate\<close> and \<open>validateEvent\<close> use of it is written out here. A \<open>Location\<close> is
  UTC or a zone with one fixed offset in seconds east of UTC (\<open>time.FixedZone\<close>); zones
  whose offset changes over the year are not covered. A \<open>Time\<close> is an instant, counted in
  seconds and nanoseconds from 0001-01-01 00:00:00 UTC as Go does internally, together
  with its location. The zero \<open>Time\<close> is that origin, in UTC.
\<close>

datatype location = UTC | FixedZone string int

fun zone_offset :: "location \<Rightarrow> int" where
  "zone_offset UTC = 0"
| "zone_offset (FixedZone nm off) = off"

record Time =
  seconds :: int
  nanos :: int
  zone :: location

definition zero_Time :: Time where
  "zero_Time = \<lparr>seconds = 0, nanos = 0, zone = UTC\<rparr>"

definition IsZero :: "Time \<Rightarrow> bool" where
  "IsZero t = (seconds t = 0 \<and> nanos t = 0)"

definition isLeap :: "int \<Rightarrow> bool" where
  "isLeap y = (y mod 4 = 0 \<and> (y mod 100 \<noteq> 0 \<or> y mod 400 = 0))"

definition daysIn :: "int \<Rightarrow> int \<Rightarrow> int" where
  "daysIn m y =
     (if m = 2 then (if isLeap y then 29 else 28)
      else if m = 4 \<or> m = 6 \<or> m = 9 \<or> m = 11 then 30 else 31)"

text \<open>Days of a common year before the first of month \<open>m\<close> (\<open>1 \<le> m \<le> 12\<close>).\<close>

definition daysBefore :: "int \<Rightarrow> int" where
  "daysBefore m = [0, 31, 59, 90, 120, 151, 181, 212, 243, 273, 304, 334] ! nat (m - 1)"

definition daysBeforeYear :: "int \<Rightarrow> int" where
  "daysBeforeYear y = 365 * (y - 1) + (y - 1) div 4 - (y - 1) div 100 + (y - 1) div 400"

text \<open>
  \<open>time.Date\<close> for arguments that are in range already, which is how \<open>time.Parse\<close>
  calls it: the instant at which the clock of the location shows the given date and time.
\<close>

definition Date :: "int \<Rightarrow> int \<Rightarrow> int \<Rightarrow> int \<Rightarrow> int \<Rightarrow> int \<Rightarrow> int \<Rightarrow> location \<Rightarrow> Time" where
  "Date y m d hh mm ss ns l =
     \<lparr>seconds =
        (daysBeforeYear y + daysBefore m + (if isLeap y \<and> 3 \<le> m then 1 else 0) + (d - 1)) * 86400
          + hh * 3600 + mm * 60 + ss - zone_offset l,
      nanos = ns, zone = l\<rparr>"

text \<open>A \<open>Duration\<close> is a number of nanoseconds; Go's \<open>/\<close> and \<open>%\<close> truncate towards zero.\<close>

definition time_Hour :: int where
  "time_Hour = 3600 * 1000000000"

definition quo :: "int \<Rightarrow> int \<Rightarrow> int" where
  "quo a b = sgn a * sgn b * (\<bar>a\<bar> div \<bar>b\<bar>)"

definition rem :: "int \<Rightarrow> int \<Rightarrow> int" where
  "rem a b = a - b * quo a b"

definition Add :: "Time \<Rightarrow> int \<Rightarrow> Time" where
  "Add t d =
     (let dsec = quo d 1000000000;
          nsec = nanos t + rem d 1000000000
      in if nsec \<ge> 1000000000 then t\<lparr>seconds := seconds t + dsec + 1, nanos := nsec - 1000000000\<rparr>
         else if nsec < 0 then t\<lparr>seconds := seconds t + dsec - 1, nanos := nsec + 1000000000\<rparr>
         else t\<lparr>seconds := seconds t + dsec, nanos := nsec\<rparr>)"

subsection \<open>Parsing with the three layouts of the parser\<close>

datatype layout = dateLayout | dateTimeLayoutUTC | dateTimeLayoutLocalized

definition layout_string :: "layout \<Rightarrow> string" where
  "layout_string ly =
     (case ly of dateLayout \<Rightarrow> ''20060102''
      | dateTimeLayoutUTC \<Rightarrow> ''20060102T150405Z''
      | dateTimeLayoutLocalized \<Rightarrow> ''20060102T150405'')"

definition isDigit :: "char \<Rightarrow> bool" where
  "isDigit ch = (48 \<le> (of_char ch :: nat) \<and> (of_char ch :: nat) \<le> 57)"

definition digit :: "char \<Rightarrow> int" where
  "digit ch = int (of_char ch) - 48"

fun atoi_digits :: "int \<Rightarrow> string \<Rightarrow> int" where
  "atoi_digits acc [] = acc"
| "atoi_digits acc (ch # cs) = atoi_digits (acc * 10 + digit ch) cs"

text \<open>
  \<open>getnum\<close>: a number of two digits, or of one digit when no second digit follows and the
  field is not of fixed width; with the rest of the text.
\<close>

fun getnum :: "string \<Rightarrow> bool \<Rightarrow> (int \<times> string) option" where
  "getnum (a # b # s) fixed =
     (if \<not> isDigit a then None
      else if \<not> isDigit b then (if fixed then None else Some (digit a, b # s))
      else Some (digit a * 10 + digit b, s))"
| "getnum [a] fixed = (if isDigit a \<and> \<not> fixed then Some (digit a, []) else None)"
| "getnum [] fixed = None"

text \<open>The element \<open>2006\<close>: exactly four digits.\<close>

definition getyear :: "string \<Rightarrow> (int \<times> string) option" where
  "getyear s =
     (if length s < 4 \<or> \<not> list_all isDigit (take 4 s) then None
      else Some (atoi_digits 0 (take 4 s), drop 4 s))"

text \<open>A literal character of the layout (\<open>T\<close>, \<open>Z\<close>) must be the next one of the value.\<close>

definition skip :: "char \<Rightarrow> string \<Rightarrow> string option" where
  "skip ch s = (case s of [] \<Rightarrow> None | a # s' \<Rightarrow> if a = ch then Some s' else None)"

text \<open>
  After the seconds, a fraction that the layout does not mention is accepted all the same
  (\<open>.\<close> or \<open>,\<close> and at least one digit): at most nine of its digits count, as nanoseconds.
\<close>

definition fraction :: "string \<Rightarrow> int \<times> string" where
  "fraction s =
     (case s of
        a # b # s' \<Rightarrow>
          if (a = CHR ''.'' \<or> a = CHR '','') \<and> isDigit b then
            (let ds = takeWhile isDigit (b # s'); used = take 9 ds
             in (atoi_digits 0 used * 10 ^ (9 - length used), drop (length ds) (b # s')))
          else (0, s)
      | _ \<Rightarrow> (0, s))"

definition parse_clock :: "string \<Rightarrow> ((int \<times> int \<times> int \<times> int) \<times> string) option" where
  "parse_clock s =
     (case skip CHR ''T'' s of None \<Rightarrow> None | Some s1 \<Rightarrow>
      case getnum s1 False of None \<Rightarrow> None | Some (hh, s2) \<Rightarrow>
      if 24 \<le> hh then None else
      case getnum s2 True of None \<Rightarrow> None | Some (mm, s3) \<Rightarrow>
      if 60 \<le> mm then None else
      case getnum s3 True of None \<Rightarrow> None | Some (ss, s4) \<Rightarrow>
      if 60 \<le> ss then None else
      (case fraction s4 of (ns, s5) \<Rightarrow> Some ((hh, mm, ss, ns), s5)))"

text \<open>
  The fields of a value under a layout, or \<open>None\<close> where \<open>time.Parse\<close> reports an error:
  a field missing or not a number, a month outside 1..12, an hour, minute or second out
  of range, text left over, or a day that the month does not have.
\<close>

definition parse_fields :: "layout \<Rightarrow> string \<Rightarrow> (int \<times> int \<times> int \<times> int \<times> int \<times> int \<times> int) option" where
  "parse_fields ly s =
     (case getyear s of None \<Rightarrow> None | Some (y, s1) \<Rightarrow>
      case getnum s1 True of None \<Rightarrow> None | Some (m, s2) \<Rightarrow>
      if m \<le> 0 \<or> 12 < m then None else
      case getnum s2 True of None \<Rightarrow> None | Some (d, s3) \<Rightarrow>
      case (if ly = dateLayout then Some ((0, 0, 0, 0), s3) else parse_clock s3) of
        None \<Rightarrow> None
      | Some ((hh, mm, ss, ns), s4) \<Rightarrow>
          case (if ly = dateTimeLayoutUTC then skip CHR ''Z'' s4 else Some s4) of
            None \<Rightarrow> None
          | Some s5 \<Rightarrow>
              if s5 \<noteq> [] then None
              else if d < 1 \<or> daysIn m y < d then None
              else Some (y, m, d, hh, mm, ss, ns))"



section \<open>Errors\<close>

text \<open>
  A Go \<open>error\<close> value. \<open>Errorf\<close> is \<open>fmt.Errorf\<close> with the format as the source writes it
  and its argument kept apart: the token that \<open>%s\<close> prints, or the key that it prints,
  which is any one of the listed keys (the order in which Go ranges over a map is not
  fixed). \<open>errorDone\<close> is the parser's own marker for the end of the calendar.
\<close>

datatype arg = Item item | OneOf "string list"

datatype error =
    errorDone
  | Errorf string "arg list"
  | ReadError string
  | ParseError string string

definition time_ParseInLocation :: "layout \<Rightarrow> string \<Rightarrow> location \<Rightarrow> Time \<times> error option" where
  "time_ParseInLocation ly s l =
     (case parse_fields ly s of
        None \<Rightarrow> (zero_Time, Some (ParseError (layout_string ly) s))
      | Some (y, m, d, hh, mm, ss, ns) \<Rightarrow> (Date y m d hh mm ss ns l, None))"

text \<open>\<open>time.Parse\<close>: no layout here names a zone, so the result is in UTC.\<close>

definition time_Parse :: "layout \<Rightarrow> string \<Rightarrow> Time \<times> error option" where
  "time_Parse ly s = time_ParseInLocation ly s UTC"

text \<open>
  What the machine that runs the program supplies: the zone \<open>time.Local\<close> and the zone
  database that \<open>time.LoadLocation\<close> consults for a name.
\<close>

record host =
  time_Local :: location
  zoneinfo :: "string \<Rightarrow> location option"

definition time_LoadLocation :: "host \<Rightarrow> string \<Rightarrow> location option" where
  "time_LoadLocation h nm =
     (if nm = [] \<or> nm = ''UTC'' then Some UTC
      else if nm = ''Local'' then Some (time_Local h)
      else zoneinfo h nm)"

section \<open>The document\<close>

text \<open>
  The structs of the parser. An \<open>*Event\<close> or \<open>*Alarm\<close> is an address: the index of the
  object in the list of all events (alarms) allocated so far, so that an object that is
  reachable twice is one object. A \<open>*Property\<close> is never changed once it is appended and
  is kept by value. A Go map from parameter names is an association list read with
  \<open>map_of\<close> and written with \<open>AList.update\<close>. The three \<open>Properties\<close> fields have
  three names.
\<close>

record Param =
  Values :: "string list"

record Property =
  Name :: string
  Value :: string
  Params :: "(string \<times> Param) list"

record Alarm =
  Action :: string
  Trigger :: string
  AlarmProperties :: "Property list"

record Event =
  UID :: string
  Timestamp :: Time
  StartDate :: Time
  EndDate :: Time
  Summary :: string
  Description :: string
  EventProperties :: "Property list"
  Alarms :: "nat list"

record Calendar =
  Prodid :: string
  Version :: string
  Calscale :: string
  Method :: string
  Properties :: "Property list"
  Events :: "nat list"

definition NewCalendar :: Calendar where
  "NewCalendar = \<lparr>Prodid = [], Version = [], Calscale = ''GREGORIAN'', Method = [],
                   Properties = [], Events = []\<rparr>"

definition NewProperty :: Property where
  "NewProperty = \<lparr>Name = [], Value = [], Params = []\<rparr>"

definition NewEvent :: Event where
  "NewEvent = \<lparr>UID = [], Timestamp = zero_Time, StartDate = zero_Time, EndDate = zero_Time,
                Summary = [], Description = [], EventProperties = [], Alarms = []\<rparr>"

definition NewAlarm :: Alarm where
  "NewAlarm = \<lparr>Action = [], Trigger = [], AlarmProperties = []\<rparr>"

definition NewParam :: Param where
  "NewParam = \<lparr>Values = []\<rparr>"

section \<open>Unfolding\<close>

text \<open>
  \<open>unfold\<close> is \<open>strings.Replace(text, "\r\n ", "", -1)\<close>: scanning from the left, every
  occurrence of CR LF SPACE that does not overlap an earlier one is deleted.
\<close>

function unfold :: "string \<Rightarrow> string" where
  "unfold text =
     (if text = [] then []
      else if strings_HasPrefix text (crlf @ '' '') then unfold (drop 3 text)
      else hd text # unfold (tl text))"
  by pat_completeness auto
termination
  by (relation "measure length") (auto simp: strings_HasPrefix_def)

declare unfold.simps [simp del]

section \<open>Validation\<close>

fun hasProperty :: "string \<Rightarrow> Property list \<Rightarrow> bool" where
  "hasProperty nm [] = False"
| "hasProperty nm (property # properties) =
     (if nm = Name property then True else hasProperty nm properties)"

text \<open>\<open>parseDate\<close>. Indexing \<open>Values[0]\<close> of a parameter without values panics.\<close>

definition parseDate :: "host \<Rightarrow> Property \<Rightarrow> location \<Rightarrow> fault + Time \<times> error option" where
  "parseDate h p l =
     (if strings_HasSuffix (Value p) ''Z'' then Inr (time_Parse dateTimeLayoutUTC (Value p))
      else
        (case map_of (Params p) ''TZID'' of
           Some tz \<Rightarrow>
             (case Values tz of
                [] \<Rightarrow> Inl (Panic ''index out of range'')
              | nm # _ \<Rightarrow>
                  Inr (time_ParseInLocation dateTimeLayoutLocalized (Value p)
                         (case time_LoadLocation h nm of None \<Rightarrow> UTC | Some z \<Rightarrow> z)))
         | None \<Rightarrow>
             if length (Value p) = 8 then Inr (time_Parse dateLayout (Value p))
             else
               (case map_of (Params p) ''VALUE'' of
                  Some v \<Rightarrow>
                    (case Values v of
                       [] \<Rightarrow> Inl (Panic ''index out of range'')
                     | x # _ \<Rightarrow>
                         Inr (time_ParseInLocation
                                (if x = ''DATE'' \<and> length (Value p) = 8 then dateLayout
                                 else dateTimeLayoutLocalized)
                                (Value p) l))
                | None \<Rightarrow> Inr (time_ParseInLocation dateTimeLayoutLocalized (Value p) l))))"

text \<open>The body of the loop of \<open>validateCalendar\<close> for one property, and the loop.\<close>

definition validateCalendar_step :: "Property \<Rightarrow> Calendar \<times> nat \<Rightarrow> Calendar \<times> nat" where
  "validateCalendar_step property s =
     (let (c0, n0) = s;
          (c1, n1) = (if Name property = ''PRODID''
                      then (c0\<lparr>Prodid := Value property\<rparr>, n0 + 1) else (c0, n0));
          (c2, n2) = (if Name property = ''VERSION''
                      then (c1\<lparr>Version := Value property\<rparr>, n1 + 1) else (c1, n1));
          c3 = (if Name property = ''CALSCALE'' then c2\<lparr>Calscale := Value property\<rparr> else c2);
          c4 = (if Name property = ''METHOD'' then c3\<lparr>Method := Value property\<rparr> else c3)
      in (c4, n2))"

text \<open>
  \<open>validateCalendar\<close> returns its error (\<open>None\<close> for \<open>nil\<close>) and the calendar as the loop
  left it: the fields are written whether or not the count is accepted.
\<close>

definition validateCalendar :: "Calendar \<Rightarrow> error option \<times> Calendar" where
  "validateCalendar c0 =
     (let (c1, propertyCount) = foldl (\<lambda>s property. validateCalendar_step property s) (c0, 0) (Properties c0)
      in (if propertyCount \<noteq> 2
          then Some (Errorf (''missing required property '' @ [CHR 0x22] @ ''prodid or version'' @ [CHR 0x22]) [])
          else None, c1))"


text \<open>
  A \<open>map[string]int\<close> of occurrence counts, as an association list; \<open>incr k\<close> is
  \<open>propertyCount[k]++\<close>.
\<close>

definition incr :: "string \<Rightarrow> (string \<times> nat) list \<Rightarrow> (string \<times> nat) list" where
  "incr k m = AList.update k (case map_of m k of None \<Rightarrow> 1 | Some n \<Rightarrow> n + 1) m"

definition keys_where :: "(nat \<Rightarrow> bool) \<Rightarrow> (string \<times> nat) list \<Rightarrow> string list" where
  "keys_where P m = map fst (filter (\<lambda>(k, n). P n) m)"

definition dq :: string where
  "dq = [CHR 0x22]"

definition both_error :: error where
  "both_error = Errorf (''cannot have both '' @ dq @ ''DTEND'' @ dq @ '' and '' @ dq @ ''DURATION'' @ dq) []"

definition missing_error :: "string \<Rightarrow> error" where
  "missing_error k = Errorf (''missing required property '' @ dq @ k @ dq) []"

definition repeated_error :: "string list \<Rightarrow> error" where
  "repeated_error ks = Errorf (dq @ ''%s'' @ dq @ '' property occurs more than once'') [OneOf ks]"

text \<open>
  The loop of \<open>validateEvent\<close> over \<open>v.Properties\<close> (\<open>every\<close> is that whole list, which
  the loop does not change). It stops early with the error for DTEND together with
  DURATION; the results of \<open>parseDate\<close> are stored and its errors dropped.
\<close>

fun validateEvent_loop ::
  "host \<Rightarrow> location \<Rightarrow> Property list \<Rightarrow> Property list \<Rightarrow> Event \<Rightarrow> (string \<times> nat) list
     \<Rightarrow> fault + error option \<times> Event \<times> (string \<times> nat) list" where
  "validateEvent_loop h l every [] v propertyCount = Inr (None, v, propertyCount)"
| "validateEvent_loop h l every (property # rest) v propertyCount =
     (if Name property = ''UID'' then
        validateEvent_loop h l every rest (v\<lparr>UID := Value property\<rparr>) (incr ''UID'' propertyCount)
      else if Name property = ''DTSTAMP'' then
        (case parseDate h property l of
           Inl f \<Rightarrow> Inl f
         | Inr (t, _) \<Rightarrow>
             validateEvent_loop h l every rest (v\<lparr>Timestamp := t\<rparr>) (incr ''DTSTAMP'' propertyCount))
      else if Name property = ''DTSTART'' then
        (case parseDate h property l of
           Inl f \<Rightarrow> Inl f
         | Inr (t, _) \<Rightarrow>
             validateEvent_loop h l every rest (v\<lparr>StartDate := t\<rparr>) (incr ''DTSTART'' propertyCount))
      else if Name property = ''DTEND'' then
        (if hasProperty ''DURATION'' every then Inr (Some both_error, v, propertyCount)
         else
           (case parseDate h property l of
              Inl f \<Rightarrow> Inl f
            | Inr (t, _) \<Rightarrow>
                validateEvent_loop h l every rest (v\<lparr>EndDate := t\<rparr>) (incr ''DTEND'' propertyCount)))
      else if Name property = ''DURATION'' then
        (if hasProperty ''DTEND'' every then Inr (Some both_error, v, propertyCount)
         else validateEvent_loop h l every rest v (incr ''DURATION'' propertyCount))
      else if Name property = ''SUMMARY'' then
        validateEvent_loop h l every rest (v\<lparr>Summary := Value property\<rparr>) (incr ''SUMMARY'' propertyCount)
      else if Name property = ''DESCRIPTION'' then
        validateEvent_loop h l every rest (v\<lparr>Description := Value property\<rparr>)
          (incr ''DESCRIPTION'' propertyCount)
      else validateEvent_loop h l every rest v propertyCount)"

text \<open>
  \<open>validateEvent\<close>, for the \<open>Method\<close> of the parser's calendar and the parser's location.
  It returns its error and the event as it left it.
\<close>

definition validateEvent :: "host \<Rightarrow> string \<Rightarrow> location \<Rightarrow> Event \<Rightarrow> fault + error option \<times> Event" where
  "validateEvent h method l v0 =
     (case validateEvent_loop h l (EventProperties v0) (EventProperties v0) v0 [] of
        Inl f \<Rightarrow> Inl f
      | Inr (Some e, v, propertyCount) \<Rightarrow> Inr (Some e, v)
      | Inr (None, v, propertyCount) \<Rightarrow>
          if method = [] \<and> IsZero (Timestamp v) then Inr (Some (missing_error ''DTSTAMP''), v)
          else if UID v = [] then Inr (Some (missing_error ''UID''), v)
          else if IsZero (StartDate v) then Inr (Some (missing_error ''DTSTART''), v)
          else if keys_where (\<lambda>n. 1 < n) propertyCount \<noteq> []
            then Inr (Some (repeated_error (keys_where (\<lambda>n. 1 < n) propertyCount)), v)
          else if \<not> hasProperty ''DTEND'' (EventProperties v)
            then Inr (None, v\<lparr>EndDate := Add (StartDate v) (time_Hour * 24)\<rparr>)
          else Inr (None, v))"

fun validateAlarm_loop :: "Property list \<Rightarrow> Alarm \<Rightarrow> (string \<times> nat) list \<Rightarrow> Alarm \<times> (string \<times> nat) list" where
  "validateAlarm_loop [] a propertyCount = (a, propertyCount)"
| "validateAlarm_loop (property # rest) a propertyCount =
     (if Name property = ''ACTION'' then
        validateAlarm_loop rest (a\<lparr>Action := Value property\<rparr>) (incr ''ACTION'' propertyCount)
      else if Name property = ''TRIGGER'' then
        validateAlarm_loop rest (a\<lparr>Trigger := Value property\<rparr>) (incr ''TRIGGER'' propertyCount)
      else validateAlarm_loop rest a propertyCount)"

text \<open>
  \<open>validateAlarm\<close>. The second loop ranges over the keys that were counted: a key is in
  the map only once it was counted, so its test \<open>val < 1\<close> finds nothing.
\<close>

definition validateAlarm :: "Alarm \<Rightarrow> error option \<times> Alarm" where
  "validateAlarm a0 =
     (let (a, propertyCount) = validateAlarm_loop (AlarmProperties a0) a0 []
      in if keys_where (\<lambda>n. n < 1) propertyCount \<noteq> []
           then (Some (Errorf (''missing required property '' @ dq @ ''%s'' @ dq)
                         [OneOf (keys_where (\<lambda>n. n < 1) propertyCount)]), a)
         else if keys_where (\<lambda>n. 1 < n) propertyCount \<noteq> []
           then (Some (repeated_error (keys_where (\<lambda>n. 1 < n) propertyCount)), a)
         else (None, a))"

section \<open>The parser\<close>

text \<open>
  The parser's state. \<open>lex_items\<close> and \<open>lex_end\<close> are what the lexer still has to
  deliver. Of the array \<open>token\<close> only slot 0 is ever written (\<open>token0\<close>); slot 1 keeps
  its zero value. \<open>cal\<close>, \<open>ev\<close> and \<open>al\<close> are the fields \<open>c\<close>, \<open>v\<close> and \<open>a\<close>; the
  last two are addresses into \<open>events\<close> and \<open>alarms\<close>, the objects allocated so far,
  or \<open>None\<close> for a nil pointer.
\<close>

record parser =
  lex_items :: "item list"
  lex_end :: halt
  token0 :: item
  peekCount :: nat
  scope :: int
  cal :: Calendar
  ev :: "nat option"
  al :: "nat option"
  location :: location
  events :: "Event list"
  alarms :: "Alarm list"

definition scopeCalendar :: int where "scopeCalendar = 0"
definition scopeEvent :: int where "scopeEvent = 1"
definition scopeAlarm :: int where "scopeAlarm = 2"

text \<open>
  \<open>nextItem\<close> receives from the channel: the next token, the zero token once the channel
  is closed, and nothing at all when the lexer goroutine has panicked (the program dies)
  or spins (the receive blocks for ever). The channel has no buffer, so the lexer is never
  more than one token ahead; the parser is taken to meet a fault of the lexer when it
  asks for the token after the last one sent. The line that \<open>nextItem\<close> prints and the
  field \<open>lastPos\<close>, which nothing reads, are left out.
\<close>

definition nextItem :: "parser \<Rightarrow> fault + item \<times> parser" where
  "nextItem p =
     (case lex_items p of
        it # rest \<Rightarrow> Inr (it, p\<lparr>lex_items := rest\<rparr>)
      | [] \<Rightarrow> (case lex_end p of Closed \<Rightarrow> Inr (zero_item, p) | Faulted f \<Rightarrow> Inl f))"

text \<open>The parser's \<open>next\<close> and \<open>backup\<close>.\<close>

definition p_next :: "parser \<Rightarrow> fault + item \<times> parser" where
  "p_next p =
     (case (if 0 < peekCount p then Inr (p\<lparr>peekCount := peekCount p - 1\<rparr>)
            else (case nextItem p of Inl f \<Rightarrow> Inl f | Inr (it, p') \<Rightarrow> Inr (p'\<lparr>token0 := it\<rparr>)))
      of Inl f \<Rightarrow> Inl f
       | Inr p' \<Rightarrow>
           if peekCount p' = 0 then Inr (token0 p', p')
           else if peekCount p' = 1 then Inr (zero_item, p')
           else Inl (Panic ''index out of range''))"

definition p_backup :: "parser \<Rightarrow> parser" where
  "p_backup p = p\<lparr>peekCount := peekCount p + 1\<rparr>"

definition enterScope :: "parser \<Rightarrow> parser" where
  "enterScope p = p\<lparr>scope := scope p + 1\<rparr>"

definition leaveScope :: "parser \<Rightarrow> parser" where
  "leaveScope p = p\<lparr>scope := scope p - 1\<rparr>"

definition found :: "item \<Rightarrow> string \<Rightarrow> error" where
  "found it expected = Errorf (''found %s, expected '' @ expected) [Item it]"


subsection \<open>Tokens still to come\<close>

text \<open>
  The number of tokens that the parser can still be given, other than the zero token of
  the closed channel: those of the stream, and one that was pushed back.
\<close>

definition tokens_left :: "parser \<Rightarrow> nat" where
  "tokens_left p =
     length (lex_items p)
       + (if (peekCount p = 1 \<or> peekCount p = 2) \<and> ityp (token0 p) \<noteq> itemError then 1 else 0)"

lemma p_next_le:
  "p_next p = Inr (it, p') \<Longrightarrow> tokens_left p' \<le> tokens_left p"
  by (auto simp: p_next_def nextItem_def tokens_left_def zero_item_def
      split: if_splits sum.splits list.splits halt.splits)

lemma p_next_less:
  "p_next p = Inr (it, p') \<Longrightarrow> ityp it \<noteq> itemError \<Longrightarrow> tokens_left p' < tokens_left p"
  by (auto simp: p_next_def nextItem_def tokens_left_def zero_item_def
      split: if_splits sum.splits list.splits halt.splits)

lemma p_backup_left: "tokens_left (p_backup p) \<le> tokens_left p + 1"
  by (simp add: p_backup_def tokens_left_def)

subsection \<open>Scanning a content line\<close>

function scanValues :: "Param \<Rightarrow> parser \<Rightarrow> fault + error option \<times> Param \<times> parser" where
  "scanValues param p =
     (case p_next p of
        Inl f \<Rightarrow> Inl f
      | Inr (it, p1) \<Rightarrow>
          if ityp it \<noteq> itemParamValue then Inr (Some (found it ''a parameter value''), param, p1)
          else
            (case p_next p1 of
               Inl f \<Rightarrow> Inl f
             | Inr (it', p2) \<Rightarrow>
                 if ityp it' \<noteq> itemComma
                 then Inr (None, param\<lparr>Values := Values param @ [val it]\<rparr>, p_backup p2)
                 else scanValues (param\<lparr>Values := Values param @ [val it]\<rparr>) p2))"
  by pat_completeness auto
termination
proof (relation "measure (\<lambda>(param, p). tokens_left p)", goal_cases)
  case 1
  show ?case by simp
next
  case (2 param p x it p1 x' it' p2)
  then have "p_next p = Inr (it, p1)" and "p_next p1 = Inr (it', p2)" and "ityp it' = itemComma"
    by simp_all
  then show ?case
    using p_next_le [of p it p1] p_next_less [of p1 it' p2] by simp
qed

declare scanValues.simps [simp del]

lemma scanValues_left:
  "scanValues param p = Inr (e, param', p') \<Longrightarrow> tokens_left p' \<le> tokens_left p"
proof (induction param p rule: scanValues.induct)
  case (1 param p)
  from "1.prems" obtain it p1 where n1: "p_next p = Inr (it, p1)"
    by (auto simp: scanValues.simps [of param p] split: sum.splits)
  show ?case
  proof (cases "ityp it = itemParamValue")
    case False
    with "1.prems" n1 have "p' = p1" by (simp add: scanValues.simps [of param p])
    with p_next_le [OF n1] show ?thesis by simp
  next
    case True
    then have lt: "tokens_left p1 < tokens_left p"
      using p_next_less [OF n1] by simp
    from "1.prems" n1 True obtain it' p2 where n2: "p_next p1 = Inr (it', p2)"
      by (auto simp: scanValues.simps [of param p] split: sum.splits)
    show ?thesis
    proof (cases "ityp it' = itemComma")
      case False
      with "1.prems" n1 n2 True have "p' = p_backup p2"
        by (simp add: scanValues.simps [of param p])
      with p_backup_left [of p2] p_next_le [OF n2] lt show ?thesis by simp
    next
      case c: True
      with "1.prems" n1 n2 True
      have "scanValues (param\<lparr>Values := Values param @ [val it]\<rparr>) p2 = Inr (e, param', p')"
        by (simp add: scanValues.simps [of param p])
      from "1.IH" [OF _ _ _ _ _ _ this] n1 n2 True c have "tokens_left p' \<le> tokens_left p2"
        by simp
      with p_next_le [OF n2] lt show ?thesis by simp
    qed
  qed
qed


text \<open>
  \<open>scanParams\<close>. The parameter is stored under \<open>item.val\<close>, and \<open>item\<close> is by then the
  token read last, the \<open>=\<close>.
\<close>

function scanParams :: "Property \<Rightarrow> parser \<Rightarrow> fault + error option \<times> Property \<times> parser" where
  "scanParams prop p =
     (case p_next p of
        Inl f \<Rightarrow> Inl f
      | Inr (it1, p1) \<Rightarrow>
          if ityp it1 \<noteq> itemSemiColon then Inr (None, prop, p_backup p1)
          else
            (case p_next p1 of
               Inl f \<Rightarrow> Inl f
             | Inr (it2, p2) \<Rightarrow>
                 if ityp it2 \<noteq> itemParamName then Inr (Some (found it2 ''a parameter name''), prop, p2)
                 else
                   (case p_next p2 of
                      Inl f \<Rightarrow> Inl f
                    | Inr (it3, p3) \<Rightarrow>
                        if ityp it3 \<noteq> itemEqual then Inr (Some (found it3 ''=''), prop, p3)
                        else
                          (case scanValues NewParam p3 of
                             Inl f \<Rightarrow> Inl f
                           | Inr (Some e, param, p4) \<Rightarrow> Inr (Some e, prop, p4)
                           | Inr (None, param, p4) \<Rightarrow>
                               scanParams (prop\<lparr>Params := AList.update (val it3) param (Params prop)\<rparr>) p4))))"
  by pat_completeness auto
termination
proof (relation "measure (\<lambda>(prop, p). tokens_left p)", goal_cases)
  case 1
  show ?case by simp
next
  case (2 pr p x1 it1 p1 x2 it2 p2 x3 it3 p3 x4 e y param p4)
  then have n: "p_next p = Inr (it1, p1)" "p_next p1 = Inr (it2, p2)" "p_next p2 = Inr (it3, p3)"
    and t: "ityp it1 = itemSemiColon"
    and v: "scanValues NewParam p3 = Inr (e, param, p4)"
    by simp_all
  from t p_next_less [OF n(1)] p_next_le [OF n(2)] p_next_le [OF n(3)]
    scanValues_left [OF v]
  show ?case by simp
qed

declare scanParams.simps [simp del]

lemma scanParams_left:
  "scanParams pr p = Inr (e, pr', p') \<Longrightarrow> tokens_left p' \<le> tokens_left p + 1"
proof (induction pr p rule: scanParams.induct)
  case (1 pr p)
  from "1.prems" obtain it1 p1 where n1: "p_next p = Inr (it1, p1)"
    by (auto simp: scanParams.simps [of pr p] split: sum.splits)
  show ?case
  proof (cases "ityp it1 = itemSemiColon")
    case False
    with "1.prems" n1 have "p' = p_backup p1" by (simp add: scanParams.simps [of pr p])
    with p_backup_left [of p1] p_next_le [OF n1] show ?thesis by simp
  next
    case semi: True
    from "1.prems" n1 semi obtain it2 p2 where n2: "p_next p1 = Inr (it2, p2)"
      by (auto simp: scanParams.simps [of pr p] split: sum.splits)
    note l2 = p_next_le [OF n1] p_next_le [OF n2]
    show ?thesis
    proof (cases "ityp it2 = itemParamName")
      case False
      with "1.prems" n1 n2 semi have "p' = p2" by (simp add: scanParams.simps [of pr p])
      with l2 show ?thesis by simp
    next
      case pn: True
      from "1.prems" n1 n2 semi pn obtain it3 p3 where n3: "p_next p2 = Inr (it3, p3)"
        by (auto simp: scanParams.simps [of pr p] split: sum.splits)
      note l3 = l2 p_next_le [OF n3]
      show ?thesis
      proof (cases "ityp it3 = itemEqual")
        case False
        with "1.prems" n1 n2 n3 semi pn have "p' = p3" by (simp add: scanParams.simps [of pr p])
        with l3 show ?thesis by simp
      next
        case eq: True
        from "1.prems" n1 n2 n3 semi pn eq obtain e4 param p4
          where v: "scanValues NewParam p3 = Inr (e4, param, p4)"
          by (auto simp: scanParams.simps [of pr p] split: sum.splits)
        note l4 = l3 scanValues_left [OF v]
        show ?thesis
        proof (cases e4)
          case (Some err)
          with "1.prems" n1 n2 n3 semi pn eq v have "p' = p4"
            by (simp add: scanParams.simps [of pr p])
          with l4 show ?thesis by simp
        next
          case None
          with "1.prems" n1 n2 n3 semi pn eq v
          have "scanParams (pr\<lparr>Params := AList.update (val it3) param (Params pr)\<rparr>) p4
                  = Inr (e, pr', p')"
            by (simp add: scanParams.simps [of pr p])
          from "1.IH" [OF _ _ _ _ _ _ _ _ _ _ _ _ _ this] n1 n2 n3 semi pn eq v None
          have "tokens_left p' \<le> tokens_left p4 + 1" by simp
          with l4 show ?thesis by simp
        qed
      qed
    qed
  qed
qed

text \<open>The step \<^verbatim>\<open>if item := p.next(); item.typ != itemLineEnd { return ... }\<close>.\<close>

definition expectLineEnd :: "parser \<Rightarrow> fault + error option \<times> parser" where
  "expectLineEnd p =
     (case p_next p of
        Inl f \<Rightarrow> Inl f
      | Inr (it, p') \<Rightarrow>
          if ityp it \<noteq> itemLineEnd then Inr (Some (found it ''CRLF''), p') else Inr (None, p'))"

definition nil_dereference :: fault where
  "nil_dereference = Panic ''invalid memory address or nil pointer dereference''"

text \<open>
  \<open>scanDelimiter\<close>. \<open>validateEvent\<close> and \<open>validateAlarm\<close> read and write the object that
  \<open>p.v\<close> or \<open>p.a\<close> points to, and panic when that pointer is nil.
\<close>

definition scanDelimiter :: "host \<Rightarrow> item \<Rightarrow> parser \<Rightarrow> fault + error option \<times> parser" where
  "scanDelimiter h delimiter p =
     (case ityp delimiter of
        itemBeginVEvent \<Rightarrow>
          (case validateCalendar (cal p) of
             (Some e, c') \<Rightarrow> Inr (Some e, p\<lparr>cal := c'\<rparr>)
           | (None, c') \<Rightarrow>
               expectLineEnd
                 (enterScope (p\<lparr>cal := c', ev := Some (length (events p)),
                                events := events p @ [NewEvent]\<rparr>)))
      | itemEndVEvent \<Rightarrow>
          if scope p > scopeEvent then Inr (Some (found delimiter ''END:VALARM''), p)
          else
            (case ev p of
               None \<Rightarrow> Inl nil_dereference
             | Some a \<Rightarrow>
                 (case validateEvent h (Method (cal p)) (location p) (events p ! a) of
                    Inl f \<Rightarrow> Inl f
                  | Inr (Some e, v') \<Rightarrow> Inr (Some e, p\<lparr>events := (events p)[a := v']\<rparr>)
                  | Inr (None, v') \<Rightarrow>
                      expectLineEnd
                        (leaveScope (p\<lparr>events := (events p)[a := v'],
                                        cal := (cal p)\<lparr>Events := Events (cal p) @ [a]\<rparr>\<rparr>))))
      | itemBeginVAlarm \<Rightarrow>
          expectLineEnd
            (enterScope (p\<lparr>al := Some (length (alarms p)), alarms := alarms p @ [NewAlarm]\<rparr>))
      | itemEndVAlarm \<Rightarrow>
          (case al p of
             None \<Rightarrow> Inl nil_dereference
           | Some b \<Rightarrow>
               (case validateAlarm (alarms p ! b) of
                  (Some e, a') \<Rightarrow> Inr (Some e, p\<lparr>alarms := (alarms p)[b := a']\<rparr>)
                | (None, a') \<Rightarrow>
                    (case ev p of
                       None \<Rightarrow> Inl nil_dereference
                     | Some a \<Rightarrow>
                         expectLineEnd
                           (leaveScope
                              (p\<lparr>alarms := (alarms p)[b := a'],
                                 events := (events p)[a := (events p ! a)
                                              \<lparr>Alarms := Alarms (events p ! a) @ [b]\<rparr>]\<rparr>)))))
      | itemEndVCalendar \<Rightarrow>
          if scope p > scopeCalendar then Inr (Some (found delimiter ''END:VEVENT''), p)
          else Inr (Some errorDone, p)
      | _ \<Rightarrow> Inr (None, p))"

lemma expectLineEnd_left:
  "expectLineEnd p = Inr (e, p') \<Longrightarrow> tokens_left p' \<le> tokens_left p"
  by (auto simp: expectLineEnd_def split: sum.splits if_splits dest: p_next_le)

lemma scanDelimiter_left:
  "scanDelimiter h delimiter p = Inr (e, p') \<Longrightarrow> tokens_left p' \<le> tokens_left p"
  unfolding scanDelimiter_def
  by (auto simp: tokens_left_def enterScope_def leaveScope_def
      split: itemType.splits sum.splits option.splits prod.splits if_splits
      dest!: expectLineEnd_left)


definition isItemComponent :: "item \<Rightarrow> bool" where
  "isItemComponent i = (ityp i = itemComponent)"

text \<open>
  The \<open>switch p.scope\<close> that ends \<open>scanContentLine\<close>: the property is appended to the
  calendar, to the object at \<open>p.v\<close> or to the object at \<open>p.a\<close>; at any other scope
  nothing is done.
\<close>

definition appendProperty :: "Property \<Rightarrow> parser \<Rightarrow> fault + parser" where
  "appendProperty prop p =
     (if scope p = scopeCalendar
        then Inr (p\<lparr>cal := (cal p)\<lparr>Properties := Properties (cal p) @ [prop]\<rparr>\<rparr>)
      else if scope p = scopeEvent then
        (case ev p of
           None \<Rightarrow> Inl nil_dereference
         | Some a \<Rightarrow>
             Inr (p\<lparr>events := (events p)[a := (events p ! a)
                      \<lparr>EventProperties := EventProperties (events p ! a) @ [prop]\<rparr>]\<rparr>))
      else if scope p = scopeAlarm then
        (case al p of
           None \<Rightarrow> Inl nil_dereference
         | Some b \<Rightarrow>
             Inr (p\<lparr>alarms := (alarms p)[b := (alarms p ! b)
                      \<lparr>AlarmProperties := AlarmProperties (alarms p ! b) @ [prop]\<rparr>]\<rparr>))
      else Inr p)"

function scanContentLine :: "host \<Rightarrow> parser \<Rightarrow> fault + error option \<times> parser" where
  "scanContentLine h p =
     (case p_next p of
        Inl f \<Rightarrow> Inl f
      | Inr (nm, p1) \<Rightarrow>
          if itemType_ord (ityp nm) > itemType_ord itemKeyword then
            (case scanDelimiter h nm p1 of
               Inl f \<Rightarrow> Inl f
             | Inr (Some e, p2) \<Rightarrow> Inr (Some e, p2)
             | Inr (None, p2) \<Rightarrow> scanContentLine h p2)
          else if \<not> isItemComponent nm
            then Inr (Some (found nm (''a '' @ dq @ ''component'' @ dq @ '' token'')), p1)
          else
            (case scanParams (NewProperty\<lparr>Name := val nm\<rparr>) p1 of
               Inl f \<Rightarrow> Inl f
             | Inr (Some e, prop, p2) \<Rightarrow> Inr (Some e, p2)
             | Inr (None, prop, p2) \<Rightarrow>
                 (case p_next p2 of
                    Inl f \<Rightarrow> Inl f
                  | Inr (colon, p3) \<Rightarrow>
                      if ityp colon \<noteq> itemColon then Inr (Some (found colon (dq @ '':'' @ dq)), p3)
                      else
                        (case p_next p3 of
                           Inl f \<Rightarrow> Inl f
                         | Inr (value, p4) \<Rightarrow>
                             if ityp value \<noteq> itemValue then Inr (Some (found value ''a value''), p4)
                             else
                               (case p_next p4 of
                                  Inl f \<Rightarrow> Inl f
                                | Inr (eol, p5) \<Rightarrow>
                                    if ityp eol \<noteq> itemLineEnd then Inr (Some (found eol ''CRLF''), p5)
                                    else
                                      (case appendProperty (prop\<lparr>Value := val value\<rparr>) p5 of
                                         Inl f \<Rightarrow> Inl f
                                       | Inr p6 \<Rightarrow> Inr (None, p6)))))))"
  by pat_completeness auto
termination
proof (relation "measure (\<lambda>(h, p). tokens_left p)", goal_cases)
  case 1
  show ?case by simp
next
  case (2 h p x nm p1 x' e p2)
  then have n: "p_next p = Inr (nm, p1)" and d: "scanDelimiter h nm p1 = Inr (e, p2)"
    and k: "itemType_ord (ityp nm) > itemType_ord itemKeyword"
    by simp_all
  from k have "ityp nm \<noteq> itemError" by auto
  from p_next_less [OF n this] scanDelimiter_left [OF d] show ?case by simp
qed

declare scanContentLine.simps [simp del]

lemma appendProperty_left:
  "appendProperty pr p = Inr p' \<Longrightarrow> tokens_left p' = tokens_left p"
  by (auto simp: appendProperty_def tokens_left_def split: if_splits option.splits)

lemma scanContentLine_left:
  "scanContentLine h p = Inr (None, p') \<Longrightarrow> tokens_left p' < tokens_left p"
proof (induction h p rule: scanContentLine.induct)
  case (1 h p)
  from "1.prems" obtain nm p1 where n1: "p_next p = Inr (nm, p1)"
    by (auto simp: scanContentLine.simps [of h p] split: sum.splits)
  show ?case
  proof (cases "itemType_ord (ityp nm) > itemType_ord itemKeyword")
    case True
    then have "ityp nm \<noteq> itemError" by auto
    note lt = p_next_less [OF n1 this]
    from "1.prems" n1 True obtain p2 where d: "scanDelimiter h nm p1 = Inr (None, p2)"
      and r: "scanContentLine h p2 = Inr (None, p')"
      by (auto simp: scanContentLine.simps [of h p] split: sum.splits option.splits)
    from "1.IH" [OF n1 refl True d refl refl r] have "tokens_left p' < tokens_left p2" .
    with lt scanDelimiter_left [OF d] show ?thesis by simp
  next
    case False
    with "1.prems" n1 have c: "ityp nm = itemComponent"
      by (auto simp: scanContentLine.simps [of h p] isItemComponent_def split: if_splits)
    then have "ityp nm \<noteq> itemError" by simp
    note lt = p_next_less [OF n1 this]
    from "1.prems" n1 False c obtain pr p2 p3 colon p4 vl p5 eol
      where sp: "scanParams (NewProperty\<lparr>Name := val nm\<rparr>) p1 = Inr (None, pr, p2)"
        and n3: "p_next p2 = Inr (colon, p3)" "ityp colon = itemColon"
        and n4: "p_next p3 = Inr (vl, p4)"
        and n5: "p_next p4 = Inr (eol, p5)"
        and ap: "appendProperty (pr\<lparr>Value := val vl\<rparr>) p5 = Inr p'"
      by (auto simp: scanContentLine.simps [of h p] isItemComponent_def
          split: sum.splits option.splits if_splits)
    from n3(2) have "ityp colon \<noteq> itemError" by simp
    from lt scanParams_left [OF sp] p_next_less [OF n3(1) this] p_next_le [OF n4] p_next_le [OF n5]
      appendProperty_left [OF ap]
    show ?thesis by simp
  qed
qed

text \<open>
  What \<open>Parse\<close> returns on success: the calendar and, since it holds addresses, the events
  and alarms that they denote.
\<close>

record document =
  calendar :: Calendar
  event_objects :: "Event list"
  alarm_objects :: "Alarm list"

text \<open>The loop of \<open>parse\<close>, and \<open>parse\<close>.\<close>

function parse_loop :: "host \<Rightarrow> parser \<Rightarrow> fault + error + document" where
  "parse_loop h p =
     (case scanContentLine h p of
        Inl f \<Rightarrow> Inl f
      | Inr (Some err', p') \<Rightarrow>
          if err' = errorDone
          then Inr (Inr \<lparr>calendar = cal p', event_objects = events p', alarm_objects = alarms p'\<rparr>)
          else Inr (Inl err')
      | Inr (None, p') \<Rightarrow> parse_loop h p')"
  by pat_completeness auto
termination
proof (relation "measure (\<lambda>(h, p). tokens_left p)", goal_cases)
  case 1
  show ?case by simp
next
  case (2 h p x e p')
  then have "scanContentLine h p = Inr (None, p')" by simp
  from scanContentLine_left [OF this] show ?case by simp
qed

declare parse_loop.simps [simp del]

definition parse :: "host \<Rightarrow> parser \<Rightarrow> fault + error + document" where
  "parse h p =
     (case p_next p of
        Inl f \<Rightarrow> Inl f
      | Inr (it1, p1) \<Rightarrow>
          if ityp it1 \<noteq> itemBeginVCalendar then Inr (Inl (found it1 ''BEGIN:VCALENDAR''))
          else
            (case p_next p1 of
               Inl f \<Rightarrow> Inl f
             | Inr (it2, p2) \<Rightarrow>
                 if ityp it2 \<noteq> itemLineEnd then Inr (Inl (found it2 ''CRLF''))
                 else parse_loop h p2))"

text \<open>
  \<open>Parse\<close>. \<open>r\<close> is what \<open>io.ReadAll\<close> gives for the reader: its error or every byte.
  \<open>l\<close> is the location, \<open>None\<close> for nil.
\<close>

definition Parse :: "host \<Rightarrow> string + string \<Rightarrow> location option \<Rightarrow> fault + error + document" where
  "Parse h r l =
     (case r of
        Inl e \<Rightarrow> Inr (Inl (ReadError e))
      | Inr bytes \<Rightarrow>
          (case lex ''ical1'' (unfold bytes) of
             (its, ending) \<Rightarrow>
               parse h \<lparr>lex_items = its, lex_end = ending, token0 = zero_item, peekCount = 0,
                         scope = scopeCalendar, cal = NewCalendar, ev = None, al = None,
                         location = (case l of None \<Rightarrow> time_Local h | Some z \<Rightarrow> z),
                         events = [], alarms = []\<rparr>))"

section \<open>The parser keeps its state sound\<close>

text \<open>
  Every parameter of the property has at least one value.
\<close>

definition params_have_values :: "Property \<Rightarrow> bool" where
  "params_have_values p = list_all (\<lambda>(k, pm). Values pm \<noteq> []) (Params p)"

text \<open>
  The state of the parser is sound: every pointer in it is the address of an allocated
  object, and every property of every event has parameters with values.
\<close>

definition sound :: "parser \<Rightarrow> bool" where
  "sound p =
     ((case ev p of None \<Rightarrow> True | Some a \<Rightarrow> a < length (events p))
      \<and> (case al p of None \<Rightarrow> True | Some b \<Rightarrow> b < length (alarms p))
      \<and> list_all (\<lambda>a. a < length (events p)) (Events (cal p))
      \<and> list_all (\<lambda>e. list_all (\<lambda>b. b < length (alarms p)) (Alarms e)) (events p)
      \<and> list_all (\<lambda>e. list_all params_have_values (EventProperties e)) (events p))"

text \<open>Reading and pushing back tokens changes nothing of this.\<close>

lemma p_next_sound: "p_next p = Inr (it, p') \<Longrightarrow> sound p \<Longrightarrow> sound p'"
  by (auto simp: p_next_def nextItem_def sound_def
      split: if_splits sum.splits list.splits halt.splits option.splits)

lemma p_backup_sound: "sound p \<Longrightarrow> sound (p_backup p)"
  by (simp add: p_backup_def sound_def split: option.splits)

lemma expectLineEnd_sound: "expectLineEnd p = Inr (e, p') \<Longrightarrow> sound p \<Longrightarrow> sound p'"
  by (auto simp: expectLineEnd_def split: sum.splits if_splits dest: p_next_sound)

text \<open>
  Validation writes fields only: it leaves the properties and the alarms of an event,
  and the events of a calendar, as they are.
\<close>

lemma validateEvent_loop_same:
  "validateEvent_loop h l every rest v n = Inr (e, v', n') \<Longrightarrow>
     EventProperties v' = EventProperties v \<and> Alarms v' = Alarms v"
proof (induction rest arbitrary: v n)
  case Nil
  then show ?case by simp
next
  case (Cons p rest)
  from Cons.prems show ?case
    by (auto split: if_splits sum.splits dest!: Cons.IH)
qed

lemma validateEvent_same:
  "validateEvent h method l v = Inr (e, v') \<Longrightarrow>
     EventProperties v' = EventProperties v \<and> Alarms v' = Alarms v"
  by (auto simp: validateEvent_def split: sum.splits option.splits if_splits
      dest!: validateEvent_loop_same)

lemma validateCalendar_step_Events: "Events (fst (validateCalendar_step p s)) = Events (fst s)"
  by (cases s) (simp add: validateCalendar_step_def)

lemma validateCalendar_Events: "Events (snd (validateCalendar c)) = Events c"
proof -
  have "Events (fst (foldl (\<lambda>s property. validateCalendar_step property s) s ps)) = Events (fst s)"
    for s ps
    by (induction ps arbitrary: s) (simp_all add: validateCalendar_step_Events)
  then show ?thesis
    by (simp add: validateCalendar_def split: prod.splits) (metis fst_conv)
qed

text \<open>Each case of \<open>scanDelimiter\<close>, and \<open>scanDelimiter\<close>.\<close>

lemma list_all_update:
  "list_all P xs \<Longrightarrow> (a < length xs \<Longrightarrow> P x) \<Longrightarrow> list_all P (xs[a := x])"
proof (cases "a < length xs")
  case True
  assume "list_all P xs" and "a < length xs \<Longrightarrow> P x"
  with True set_update_subset_insert [of xs a x] show ?thesis
    by (auto simp: list_all_iff)
next
  case False
  assume "list_all P xs"
  with False show ?thesis by (simp add: list_update_beyond not_less)
qed

lemma sound_nth:
  "sound p \<Longrightarrow> a < length (events p) \<Longrightarrow>
     list_all (\<lambda>b. b < length (alarms p)) (Alarms (events p ! a))
     \<and> list_all params_have_values (EventProperties (events p ! a))"
  by (simp add: sound_def list_all_length)

lemma begin_event_sound:
  assumes "sound p" and "Events c' = Events (cal p)"
  shows "sound (enterScope (p\<lparr>cal := c', ev := Some (length (events p)),
                               events := events p @ [NewEvent]\<rparr>))"
  using assms
  by (auto simp: sound_def enterScope_def NewEvent_def list_all_iff less_Suc_eq
      split: option.splits)

lemma end_event_sound:
  assumes "sound p" and "ev p = Some a"
    and "EventProperties v' = EventProperties (events p ! a) \<and> Alarms v' = Alarms (events p ! a)"
  shows "sound (p\<lparr>events := (events p)[a := v']\<rparr>)"
    and "sound (leaveScope (p\<lparr>events := (events p)[a := v'],
                                cal := (cal p)\<lparr>Events := Events (cal p) @ [a]\<rparr>\<rparr>))"
proof -
  from assms(1,2) have a: "a < length (events p)" by (simp add: sound_def)
  from sound_nth [OF assms(1) a] assms(3)
  have v': "list_all (\<lambda>b. b < length (alarms p)) (Alarms v')"
    "list_all params_have_values (EventProperties v')" by simp_all
  from assms(1) have parts:
    "list_all (\<lambda>e. list_all (\<lambda>b. b < length (alarms p)) (Alarms e)) (events p)"
    "list_all (\<lambda>e. list_all params_have_values (EventProperties e)) (events p)"
    by (simp_all add: sound_def)
  note upd = list_all_update [OF parts(1), of a v'] list_all_update [OF parts(2), of a v']
  show "sound (p\<lparr>events := (events p)[a := v']\<rparr>)"
    using assms(1) v' upd by (simp add: sound_def split: option.splits)
  show "sound (leaveScope (p\<lparr>events := (events p)[a := v'],
                                cal := (cal p)\<lparr>Events := Events (cal p) @ [a]\<rparr>\<rparr>))"
    using assms(1) v' upd a by (simp add: sound_def leaveScope_def split: option.splits)
qed


lemma begin_alarm_sound:
  assumes "sound p"
  shows "sound (enterScope (p\<lparr>al := Some (length (alarms p)), alarms := alarms p @ [NewAlarm]\<rparr>))"
  using assms
  by (auto simp: sound_def enterScope_def list_all_iff less_Suc_eq split: option.splits)

lemma end_alarm_sound:
  assumes "sound p" and "al p = Some b"
  shows "sound (p\<lparr>alarms := (alarms p)[b := a']\<rparr>)"
    and "ev p = Some a \<Longrightarrow>
         sound (leaveScope
                  (p\<lparr>alarms := (alarms p)[b := a'],
                     events := (events p)[a := (events p ! a)
                                  \<lparr>Alarms := Alarms (events p ! a) @ [b]\<rparr>]\<rparr>))"
proof -
  show "sound (p\<lparr>alarms := (alarms p)[b := a']\<rparr>)"
    using assms by (simp add: sound_def split: option.splits)
  assume ev: "ev p = Some a"
  from assms have b: "b < length (alarms p)" by (simp add: sound_def)
  from assms(1) ev have a: "a < length (events p)" by (simp add: sound_def)
  from assms(1) have parts:
    "list_all (\<lambda>e. list_all (\<lambda>b. b < length (alarms p)) (Alarms e)) (events p)"
    "list_all (\<lambda>e. list_all params_have_values (EventProperties e)) (events p)"
    by (simp_all add: sound_def)
  from sound_nth [OF assms(1) a] b
  have "list_all (\<lambda>b. b < length (alarms p)) (Alarms (events p ! a) @ [b])"
    and "list_all params_have_values (EventProperties (events p ! a))" by simp_all
  with list_all_update [OF parts(1), of a "(events p ! a)\<lparr>Alarms := Alarms (events p ! a) @ [b]\<rparr>"]
    list_all_update [OF parts(2), of a "(events p ! a)\<lparr>Alarms := Alarms (events p ! a) @ [b]\<rparr>"]
  show "sound (leaveScope
                  (p\<lparr>alarms := (alarms p)[b := a'],
                     events := (events p)[a := (events p ! a)
                                  \<lparr>Alarms := Alarms (events p ! a) @ [b]\<rparr>]\<rparr>))"
    using assms(1) by (simp add: sound_def leaveScope_def split: option.splits)
qed

lemma validateCalendar_sound:
  "sound p \<Longrightarrow> sound (p\<lparr>cal := snd (validateCalendar (cal p))\<rparr>)"
  by (simp add: sound_def validateCalendar_Events split: option.splits)

lemma scanDelimiter_sound:
  assumes "scanDelimiter h delimiter p = Inr (e, p')" and "sound p"
  shows "sound p'"
proof (cases "ityp delimiter")
  case itemBeginVEvent
  obtain e0 c' where vc: "validateCalendar (cal p) = (e0, c')" by (cases "validateCalendar (cal p)")
  then have c': "Events c' = Events (cal p)"
    using validateCalendar_Events [of "cal p"] by simp
  show ?thesis
  proof (cases e0)
    case (Some err)
    with assms itemBeginVEvent vc validateCalendar_sound [OF assms(2)] show ?thesis
      by (auto simp: scanDelimiter_def)
  next
    case None
    with assms(1) itemBeginVEvent vc
    have "expectLineEnd (enterScope (p\<lparr>cal := c', ev := Some (length (events p)),
                               events := events p @ [NewEvent]\<rparr>)) = Inr (e, p')"
      by (simp add: scanDelimiter_def)
    from expectLineEnd_sound [OF this begin_event_sound [OF assms(2) c']] show ?thesis .
  qed
next
  case itemEndVEvent
  show ?thesis
  proof (cases "scope p > scopeEvent")
    case True
    with assms itemEndVEvent show ?thesis by (auto simp: scanDelimiter_def)
  next
    case False
    with assms(1) itemEndVEvent obtain a e1 v' where ev: "ev p = Some a"
      and ve: "validateEvent h (Method (cal p)) (location p) (events p ! a) = Inr (e1, v')"
      by (auto simp: scanDelimiter_def split: option.splits sum.splits)
    note s = end_event_sound [OF assms(2) ev validateEvent_same [OF ve]]
    show ?thesis
    proof (cases e1)
      case (Some err)
      with assms(1) itemEndVEvent False ev ve s(1) show ?thesis
        by (auto simp: scanDelimiter_def)
    next
      case None
      with assms(1) itemEndVEvent False ev ve
      have "expectLineEnd (leaveScope (p\<lparr>events := (events p)[a := v'],
                                cal := (cal p)\<lparr>Events := Events (cal p) @ [a]\<rparr>\<rparr>)) = Inr (e, p')"
        by (simp add: scanDelimiter_def)
      from expectLineEnd_sound [OF this s(2)] show ?thesis .
    qed
  qed
next
  case itemBeginVAlarm
  with assms(1)
  have "expectLineEnd (enterScope (p\<lparr>al := Some (length (alarms p)),
                                      alarms := alarms p @ [NewAlarm]\<rparr>)) = Inr (e, p')"
    by (simp add: scanDelimiter_def)
  from expectLineEnd_sound [OF this begin_alarm_sound [OF assms(2)]] show ?thesis .
next
  case itemEndVAlarm
  with assms(1) obtain b where al: "al p = Some b"
    by (auto simp: scanDelimiter_def split: option.splits)
  obtain e1 a' where va: "validateAlarm (alarms p ! b) = (e1, a')"
    by (cases "validateAlarm (alarms p ! b)")
  note s = end_alarm_sound [OF assms(2) al]
  show ?thesis
  proof (cases e1)
    case (Some err)
    with assms(1) itemEndVAlarm al va s(1) [of a'] show ?thesis
      by (auto simp: scanDelimiter_def)
  next
    case None
    with assms(1) itemEndVAlarm al va obtain a where ev: "ev p = Some a"
      and "expectLineEnd (leaveScope
                  (p\<lparr>alarms := (alarms p)[b := a'],
                     events := (events p)[a := (events p ! a)
                                  \<lparr>Alarms := Alarms (events p ! a) @ [b]\<rparr>]\<rparr>)) = Inr (e, p')"
      by (auto simp: scanDelimiter_def split: option.splits)
    from expectLineEnd_sound [OF this(2) s(2) [OF ev]] show ?thesis .
  qed
qed (use assms in \<open>auto simp: scanDelimiter_def split: if_splits\<close>)

lemma appendProperty_sound:
  assumes "appendProperty pr p = Inr p'" and "sound p" and "params_have_values pr"
  shows "sound p'"
proof -
  have ev: "sound (p\<lparr>events := (events p)[a := (events p ! a)
                      \<lparr>EventProperties := EventProperties (events p ! a) @ [pr]\<rparr>]\<rparr>)"
    if "ev p = Some a" for a
  proof -
    from assms(2) that have a: "a < length (events p)" by (simp add: sound_def)
    from assms(2) have parts:
      "list_all (\<lambda>e. list_all (\<lambda>b. b < length (alarms p)) (Alarms e)) (events p)"
      "list_all (\<lambda>e. list_all params_have_values (EventProperties e)) (events p)"
      by (simp_all add: sound_def)
    from sound_nth [OF assms(2) a] assms(3)
    have "list_all (\<lambda>b. b < length (alarms p)) (Alarms (events p ! a))"
      and "list_all params_have_values (EventProperties (events p ! a) @ [pr])" by simp_all
    with list_all_update [OF parts(1), of a
        "(events p ! a)\<lparr>EventProperties := EventProperties (events p ! a) @ [pr]\<rparr>"]
      list_all_update [OF parts(2), of a
        "(events p ! a)\<lparr>EventProperties := EventProperties (events p ! a) @ [pr]\<rparr>"]
    show ?thesis using assms(2) by (simp add: sound_def split: option.splits)
  qed
  have al: "sound (p\<lparr>alarms := (alarms p)[b := x]\<rparr>)" for b x
    using assms(2) by (simp add: sound_def split: option.splits)
  have cl: "sound (p\<lparr>cal := (cal p)\<lparr>Properties := Properties (cal p) @ [pr]\<rparr>\<rparr>)"
    using assms(2) by (simp add: sound_def split: option.splits)
  from assms(1,2) ev al cl show ?thesis
    unfolding appendProperty_def by (auto split: if_splits option.splits)
qed


text \<open>The scanning functions.\<close>

lemma scanValues_sound: "scanValues param p = Inr (e, param', p') \<Longrightarrow> sound p \<Longrightarrow> sound p'"
proof (induction param p rule: scanValues.induct)
  case (1 param p)
  from "1.prems"(1) obtain it p1 where n1: "p_next p = Inr (it, p1)"
    by (auto simp: scanValues.simps [of param p] split: sum.splits)
  note s1 = p_next_sound [OF n1 "1.prems"(2)]
  show ?case
  proof (cases "ityp it = itemParamValue")
    case False
    with "1.prems"(1) n1 s1 show ?thesis
      by (simp add: scanValues.simps [of param p])
  next
    case True
    with "1.prems"(1) n1 obtain it' p2 where n2: "p_next p1 = Inr (it', p2)"
      by (auto simp: scanValues.simps [of param p] split: sum.splits)
    note s2 = p_next_sound [OF n2 s1]
    show ?thesis
    proof (cases "ityp it' = itemComma")
      case False
      with "1.prems"(1) n1 n2 True p_backup_sound [OF s2] show ?thesis
        by (auto simp: scanValues.simps [of param p])
    next
      case c: True
      with "1.prems"(1) n1 n2 True
      have "scanValues (param\<lparr>Values := Values param @ [val it]\<rparr>) p2 = Inr (e, param', p')"
        by (simp add: scanValues.simps [of param p])
      from "1.IH" [OF _ _ _ _ _ _ this s2] n1 n2 True c show ?thesis by simp
    qed
  qed
qed

lemma scanParams_sound: "scanParams pr p = Inr (e, pr', p') \<Longrightarrow> sound p \<Longrightarrow> sound p'"
proof (induction pr p rule: scanParams.induct)
  case (1 pr p)
  from "1.prems"(1) obtain it1 p1 where n1: "p_next p = Inr (it1, p1)"
    by (auto simp: scanParams.simps [of pr p] split: sum.splits)
  note s1 = p_next_sound [OF n1 "1.prems"(2)]
  show ?case
  proof (cases "ityp it1 = itemSemiColon")
    case False
    with "1.prems"(1) n1 p_backup_sound [OF s1] show ?thesis
      by (auto simp: scanParams.simps [of pr p])
  next
    case semi: True
    from "1.prems"(1) n1 semi obtain it2 p2 where n2: "p_next p1 = Inr (it2, p2)"
      by (auto simp: scanParams.simps [of pr p] split: sum.splits)
    note s2 = p_next_sound [OF n2 s1]
    show ?thesis
    proof (cases "ityp it2 = itemParamName")
      case False
      with "1.prems"(1) n1 n2 semi s2 show ?thesis by (auto simp: scanParams.simps [of pr p])
    next
      case pn: True
      from "1.prems"(1) n1 n2 semi pn obtain it3 p3 where n3: "p_next p2 = Inr (it3, p3)"
        by (auto simp: scanParams.simps [of pr p] split: sum.splits)
      note s3 = p_next_sound [OF n3 s2]
      show ?thesis
      proof (cases "ityp it3 = itemEqual")
        case False
        with "1.prems"(1) n1 n2 n3 semi pn s3 show ?thesis
          by (auto simp: scanParams.simps [of pr p])
      next
        case eq: True
        from "1.prems"(1) n1 n2 n3 semi pn eq obtain e4 param p4
          where v: "scanValues NewParam p3 = Inr (e4, param, p4)"
          by (auto simp: scanParams.simps [of pr p] split: sum.splits)
        note s4 = scanValues_sound [OF v s3]
        show ?thesis
        proof (cases e4)
          case (Some err)
          with "1.prems"(1) n1 n2 n3 semi pn eq v s4 show ?thesis
            by (auto simp: scanParams.simps [of pr p])
        next
          case None
          with "1.prems"(1) n1 n2 n3 semi pn eq v
          have r: "scanParams (pr\<lparr>Params := AList.update (val it3) param (Params pr)\<rparr>) p4
                  = Inr (e, pr', p')"
            by (simp add: scanParams.simps [of pr p])
          from None v have v': "scanValues NewParam p3 = Inr (None, param, p4)" by simp
          from "1.IH" [OF n1 refl _ n2 refl _ n3 refl _ v' refl refl refl r s4] semi pn eq
          show ?thesis by simp
        qed
      qed
    qed
  qed
qed

text \<open>
  A parameter that \<open>scanValues\<close> has read has a value, so the parameters of a property
  that \<open>scanParams\<close> has read all have one.
\<close>

lemma scanValues_has_value:
  "scanValues param p = Inr (None, param', p') \<Longrightarrow> Values param' \<noteq> []"
proof (induction param p rule: scanValues.induct)
  case (1 param p)
  from "1.prems" obtain it p1 it' p2 where n1: "p_next p = Inr (it, p1)"
    and t1: "ityp it = itemParamValue" and n2: "p_next p1 = Inr (it', p2)"
    by (auto simp: scanValues.simps [of param p] split: sum.splits if_splits)
  show ?case
  proof (cases "ityp it' = itemComma")
    case False
    with "1.prems" n1 n2 t1 show ?thesis
      by (auto simp: scanValues.simps [of param p])
  next
    case True
    with "1.prems" n1 n2 t1
    have "scanValues (param\<lparr>Values := Values param @ [val it]\<rparr>) p2 = Inr (None, param', p')"
      by (simp add: scanValues.simps [of param p])
    from "1.IH" [OF _ _ _ _ _ _ this] n1 n2 t1 True show ?thesis by simp
  qed
qed

lemma set_AList_update: "set (AList.update k x kvs) \<subseteq> insert (k, x) (set kvs)"
  by (induct kvs) auto

lemma scanParams_have_values:
  "scanParams pr p = Inr (None, pr', p') \<Longrightarrow> params_have_values pr \<Longrightarrow> params_have_values pr'"
proof (induction pr p rule: scanParams.induct)
  case (1 pr p)
  from "1.prems"(1) obtain it1 p1 where n1: "p_next p = Inr (it1, p1)"
    by (auto simp: scanParams.simps [of pr p] split: sum.splits)
  show ?case
  proof (cases "ityp it1 = itemSemiColon")
    case False
    with "1.prems" n1 show ?thesis by (simp add: scanParams.simps [of pr p])
  next
    case semi: True
    with "1.prems"(1) n1 obtain it2 p2 it3 p3 param p4
      where n2: "p_next p1 = Inr (it2, p2)" and t2: "ityp it2 = itemParamName"
        and n3: "p_next p2 = Inr (it3, p3)" and t3: "ityp it3 = itemEqual"
        and v: "scanValues NewParam p3 = Inr (None, param, p4)"
        and r: "scanParams (pr\<lparr>Params := AList.update (val it3) param (Params pr)\<rparr>) p4
                  = Inr (None, pr', p')"
      by (auto simp: scanParams.simps [of pr p] split: sum.splits if_splits option.splits)
    from scanValues_has_value [OF v] "1.prems"(2)
    have "params_have_values (pr\<lparr>Params := AList.update (val it3) param (Params pr)\<rparr>)"
      using set_AList_update [of "val it3" param "Params pr"]
      by (auto simp: params_have_values_def list_all_iff)
    from "1.IH" [OF n1 refl _ n2 refl _ n3 refl _ v refl refl refl r this] semi t2 t3
    show ?thesis by simp
  qed
qed


lemma scanContentLine_sound:
  "scanContentLine h p = Inr (e, p') \<Longrightarrow> sound p \<Longrightarrow> sound p'"
proof (induction h p rule: scanContentLine.induct)
  case (1 h p)
  from "1.prems"(1) obtain nm p1 where n1: "p_next p = Inr (nm, p1)"
    by (auto simp: scanContentLine.simps [of h p] split: sum.splits)
  note i1 = p_next_sound [OF n1 "1.prems"(2)]
  show ?case
  proof (cases "itemType_ord (ityp nm) > itemType_ord itemKeyword")
    case True
    with "1.prems"(1) n1 obtain e2 p2 where d: "scanDelimiter h nm p1 = Inr (e2, p2)"
      by (auto simp: scanContentLine.simps [of h p] split: sum.splits)
    note i2 = scanDelimiter_sound [OF d i1]
    show ?thesis
    proof (cases e2)
      case (Some err)
      with "1.prems"(1) n1 True d i2 show ?thesis
        by (auto simp: scanContentLine.simps [of h p])
    next
      case None
      with "1.prems"(1) n1 True d have r: "scanContentLine h p2 = Inr (e, p')"
        by (simp add: scanContentLine.simps [of h p])
      from None d have d': "scanDelimiter h nm p1 = Inr (None, p2)" by simp
      from "1.IH" [OF n1 refl True d' refl refl r i2] show ?thesis .
    qed
  next
    case no_delimiter: False
    show ?thesis
    proof (cases "isItemComponent nm")
      case False
      with "1.prems"(1) n1 no_delimiter i1 show ?thesis
        by (auto simp: scanContentLine.simps [of h p])
    next
      case component: True
      with "1.prems"(1) n1 no_delimiter obtain e2 pr p2
        where sp: "scanParams (NewProperty\<lparr>Name := val nm\<rparr>) p1 = Inr (e2, pr, p2)"
        by (auto simp: scanContentLine.simps [of h p] split: sum.splits)
      note i2 = scanParams_sound [OF sp i1]
      show ?thesis
      proof (cases e2)
        case (Some err)
        with "1.prems"(1) n1 no_delimiter component sp i2 show ?thesis
          by (auto simp: scanContentLine.simps [of h p])
      next
        case None
        with sp have sp': "scanParams (NewProperty\<lparr>Name := val nm\<rparr>) p1 = Inr (None, pr, p2)"
          by simp
        have "params_have_values (NewProperty\<lparr>Name := val nm\<rparr>)"
          by (simp add: params_have_values_def NewProperty_def)
        from scanParams_have_values [OF sp' this] have wf: "params_have_values pr" .
        then have wf': "params_have_values (pr\<lparr>Value := x\<rparr>)" for x
          by (simp add: params_have_values_def)
        from "1.prems"(1) n1 no_delimiter component sp' obtain colon p3
          where n3: "p_next p2 = Inr (colon, p3)"
          by (auto simp: scanContentLine.simps [of h p] split: sum.splits)
        note i3 = p_next_sound [OF n3 i2]
        show ?thesis
        proof (cases "ityp colon = itemColon")
          case False
          with "1.prems"(1) n1 no_delimiter component sp' n3 i3
          show ?thesis by (auto simp: scanContentLine.simps [of h p])
        next
          case c: True
          with "1.prems"(1) n1 no_delimiter component sp' n3 obtain vl p4
            where n4: "p_next p3 = Inr (vl, p4)"
            by (auto simp: scanContentLine.simps [of h p] split: sum.splits)
          note i4 = p_next_sound [OF n4 i3]
          show ?thesis
          proof (cases "ityp vl = itemValue")
            case False
            with "1.prems"(1) n1 no_delimiter component sp' n3 c n4 i4
            show ?thesis by (auto simp: scanContentLine.simps [of h p])
          next
            case v: True
            with "1.prems"(1) n1 no_delimiter component sp' n3 c n4 obtain eol p5
              where n5: "p_next p4 = Inr (eol, p5)"
              by (auto simp: scanContentLine.simps [of h p] split: sum.splits)
            note i5 = p_next_sound [OF n5 i4]
            show ?thesis
            proof (cases "ityp eol = itemLineEnd")
              case False
              with "1.prems"(1) n1 no_delimiter component sp' n3 c n4 v n5 i5
              show ?thesis by (auto simp: scanContentLine.simps [of h p])
            next
              case True
              with "1.prems"(1) n1 no_delimiter component sp' n3 c n4 v n5
              have "appendProperty (pr\<lparr>Value := val vl\<rparr>) p5 = Inr p'"
                by (auto simp: scanContentLine.simps [of h p] split: sum.splits)
              from appendProperty_sound [OF this i5 wf'] show ?thesis .
            qed
          qed
        qed
      qed
    qed
  qed
qed

text \<open>
  A document that \<open>Parse\<close> returns is sound in the same sense: its addresses denote
  objects that it holds.
\<close>

definition document_sound :: "document \<Rightarrow> bool" where
  "document_sound d =
     (list_all (\<lambda>a. a < length (event_objects d)) (Events (calendar d))
      \<and> list_all (\<lambda>e. list_all (\<lambda>b. b < length (alarm_objects d)) (Alarms e)) (event_objects d)
      \<and> list_all (\<lambda>e. list_all params_have_values (EventProperties e)) (event_objects d))"

lemma parse_loop_sound: "parse_loop h p = Inr (Inr d) \<Longrightarrow> sound p \<Longrightarrow> document_sound d"
proof (induction h p rule: parse_loop.induct)
  case (1 h p)
  from "1.prems"(1) obtain e p' where sc: "scanContentLine h p = Inr (e, p')"
    by (auto simp: parse_loop.simps [of h p] split: sum.splits)
  note s' = scanContentLine_sound [OF sc "1.prems"(2)]
  show ?case
  proof (cases e)
    case None
    with "1.prems"(1) sc have "parse_loop h p' = Inr (Inr d)"
      by (simp add: parse_loop.simps [of h p])
    from "1.IH" [OF sc [unfolded None] refl refl this s'] show ?thesis .
  next
    case (Some err)
    with "1.prems"(1) sc
    have "d = \<lparr>calendar = cal p', event_objects = events p', alarm_objects = alarms p'\<rparr>"
      by (auto simp: parse_loop.simps [of h p] split: if_splits)
    with s' show ?thesis by (simp add: document_sound_def sound_def)
  qed
qed

lemma Parse_sound: "Parse h r l = Inr (Inr d) \<Longrightarrow> document_sound d"
proof -
  assume P: "Parse h r l = Inr (Inr d)"
  then obtain bytes where r: "r = Inr bytes"
    by (cases r) (auto simp: Parse_def)
  obtain its ending where lx: "lex ''ical1'' (unfold bytes) = (its, ending)"
    by (cases "lex ''ical1'' (unfold bytes)")
  define p0 where "p0 = \<lparr>lex_items = its, lex_end = ending, token0 = zero_item, peekCount = 0,
                         scope = scopeCalendar, cal = NewCalendar, ev = None, al = None,
                         location = (case l of None \<Rightarrow> time_Local h | Some z \<Rightarrow> z),
                         events = [], alarms = []\<rparr>"
  have s0: "sound p0" by (simp add: p0_def sound_def NewCalendar_def)
  from P r lx have "parse h p0 = Inr (Inr d)" by (simp add: Parse_def p0_def)
  then obtain it1 p1 it2 p2 where "p_next p0 = Inr (it1, p1)" "p_next p1 = Inr (it2, p2)"
    and "parse_loop h p2 = Inr (Inr d)"
    by (auto simp: parse_def split: sum.splits if_splits)
  from parse_loop_sound [OF this(3) p_next_sound [OF this(2) p_next_sound [OF this(1) s0]]]
  show ?thesis .
qed

section \<open>Properties\<close>

subsection \<open>Notions\<close>

text \<open>No token follows an error token.\<close>

fun error_is_last :: "item list \<Rightarrow> bool" where
  "error_is_last [] = True"
| "error_is_last (it # its) = (if ityp it = itemError then its = [] else error_is_last its)"

text \<open>How many of the properties are called \<open>nm\<close>.\<close>

definition occurrences :: "string \<Rightarrow> Property list \<Rightarrow> nat" where
  "occurrences nm ps = length (filter (\<lambda>p. Name p = nm) ps)"

text \<open>The value of the last property called \<open>nm\<close>, or \<open>d\<close> when there is none.\<close>

definition last_value :: "string \<Rightarrow> Property list \<Rightarrow> string \<Rightarrow> string" where
  "last_value nm ps d = (case filter (\<lambda>p. Name p = nm) ps of [] \<Rightarrow> d | qs \<Rightarrow> Value (last qs))"

text \<open>The text contains CR LF SPACE.\<close>

fun has_fold :: "string \<Rightarrow> bool" where
  "has_fold [] = False"
| "has_fold (ch # s) = (strings_HasPrefix (ch # s) (crlf @ '' '') \<or> has_fold s)"

text \<open>The string \<open>pat\<close> occurs somewhere in the string.\<close>

fun occurs :: "string \<Rightarrow> string \<Rightarrow> bool" where
  "occurs pat [] = False"
| "occurs pat (ch # s) = (strings_HasPrefix (ch # s) pat \<or> occurs pat s)"

subsection \<open>Inputs\<close>

text \<open>A machine in a zone five hours west of UTC, without a zone database.\<close>

definition example_host :: host where
  "example_host = \<lparr>time_Local = FixedZone ''EST'' (- 18000), zoneinfo = (\<lambda>nm. None)\<rparr>"

text \<open>The message of the error token that \<open>lexNewLine\<close> sends.\<close>

definition no_crlf_message :: string where
  "no_crlf_message = ''unable to find end of line '' @ dq @ ''CRLF'' @ dq"

text \<open>The minimal document, and the tokens that the lexer turns it into.\<close>

definition minimal_document :: string where
  "minimal_document =
     ''BEGIN:VCALENDAR'' @ crlf @ ''PRODID:-'' @ crlf @ ''VERSION:2.0'' @ crlf
       @ ''END:VCALENDAR'' @ crlf"

definition minimal_tokens :: "item list" where
  "minimal_tokens =
     [\<lparr>ityp = itemBeginVCalendar, ipos = 0, val = ''BEGIN:VCALENDAR'', args = []\<rparr>,
      \<lparr>ityp = itemLineEnd, ipos = 15, val = crlf, args = []\<rparr>,
      \<lparr>ityp = itemComponent, ipos = 17, val = ''PRODID'', args = []\<rparr>,
      \<lparr>ityp = itemColon, ipos = 23, val = '':'', args = []\<rparr>,
      \<lparr>ityp = itemValue, ipos = 24, val = ''-'', args = []\<rparr>,
      \<lparr>ityp = itemLineEnd, ipos = 25, val = crlf, args = []\<rparr>,
      \<lparr>ityp = itemComponent, ipos = 27, val = ''VERSION'', args = []\<rparr>,
      \<lparr>ityp = itemColon, ipos = 34, val = '':'', args = []\<rparr>,
      \<lparr>ityp = itemValue, ipos = 35, val = ''2.0'', args = []\<rparr>,
      \<lparr>ityp = itemLineEnd, ipos = 38, val = crlf, args = []\<rparr>,
      \<lparr>ityp = itemEndVCalendar, ipos = 40, val = ''END:VCALENDAR'', args = []\<rparr>,
      \<lparr>ityp = itemLineEnd, ipos = 53, val = crlf, args = []\<rparr>,
      \<lparr>ityp = itemEOF, ipos = 55, val = [], args = []\<rparr>]"

text \<open>What the code returns for the minimal document.\<close>

definition minimal_result :: document where
  "minimal_result =
     \<lparr>calendar =
        \<lparr>Prodid = [], Version = [], Calscale = ''GREGORIAN'', Method = [],
           Properties = [\<lparr>Name = ''PRODID'', Value = ''-'', Params = []\<rparr>,
                         \<lparr>Name = ''VERSION'', Value = ''2.0'', Params = []\<rparr>],
           Events = []\<rparr>,
      event_objects = [], alarm_objects = []\<rparr>"

text \<open>A calendar without PRODID and without any event.\<close>

definition no_prodid_document :: string where
  "no_prodid_document =
     ''BEGIN:VCALENDAR'' @ crlf @ ''VERSION:2.0'' @ crlf @ ''END:VCALENDAR'' @ crlf"

definition no_prodid_tokens :: "item list" where
  "no_prodid_tokens =
     [\<lparr>ityp = itemBeginVCalendar, ipos = 0, val = ''BEGIN:VCALENDAR'', args = []\<rparr>,
      \<lparr>ityp = itemLineEnd, ipos = 15, val = crlf, args = []\<rparr>,
      \<lparr>ityp = itemComponent, ipos = 17, val = ''VERSION'', args = []\<rparr>,
      \<lparr>ityp = itemColon, ipos = 24, val = '':'', args = []\<rparr>,
      \<lparr>ityp = itemValue, ipos = 25, val = ''2.0'', args = []\<rparr>,
      \<lparr>ityp = itemLineEnd, ipos = 28, val = crlf, args = []\<rparr>,
      \<lparr>ityp = itemEndVCalendar, ipos = 30, val = ''END:VCALENDAR'', args = []\<rparr>,
      \<lparr>ityp = itemLineEnd, ipos = 43, val = crlf, args = []\<rparr>,
      \<lparr>ityp = itemEOF, ipos = 45, val = [], args = []\<rparr>]"

text \<open>An event that is closed by END:VALARM although no alarm was opened.\<close>

definition stray_end_valarm_document :: string where
  "stray_end_valarm_document =
     ''BEGIN:VCALENDAR'' @ crlf @ ''PRODID:-'' @ crlf @ ''VERSION:2.0'' @ crlf
       @ ''BEGIN:VEVENT'' @ crlf @ ''UID:abc'' @ crlf @ ''END:VALARM'' @ crlf"

text \<open>An event in which a second END:VALARM follows a complete alarm.\<close>

definition double_end_valarm_document :: string where
  "double_end_valarm_document =
     ''BEGIN:VCALENDAR'' @ crlf @ ''PRODID:-'' @ crlf @ ''VERSION:2.0'' @ crlf
       @ ''BEGIN:VEVENT'' @ crlf @ ''UID:abc'' @ crlf @ ''DTSTAMP:20230615T120000Z'' @ crlf
       @ ''DTSTART:20230615T120000Z'' @ crlf
       @ ''BEGIN:VALARM'' @ crlf @ ''END:VALARM'' @ crlf @ ''END:VALARM'' @ crlf
       @ ''END:VEVENT'' @ crlf @ ''END:VCALENDAR'' @ crlf"

text \<open>An event as the parser builds it, with a DURATION and then a DTEND line.\<close>

definition both_event :: Event where
  "both_event =
     NewEvent\<lparr>EventProperties :=
       [\<lparr>Name = ''UID'', Value = ''abc'', Params = []\<rparr>,
        \<lparr>Name = ''DTSTART'', Value = ''20230615T120000Z'', Params = []\<rparr>,
        \<lparr>Name = ''DURATION'', Value = ''PT1H'', Params = []\<rparr>,
        \<lparr>Name = ''DTEND'', Value = ''20230615T130000Z'', Params = []\<rparr>]\<rparr>"

text \<open>An event without DTEND, before and after validation.\<close>

definition plain_event :: Event where
  "plain_event =
     NewEvent\<lparr>EventProperties :=
       [\<lparr>Name = ''UID'', Value = ''abc'', Params = []\<rparr>,
        \<lparr>Name = ''DTSTAMP'', Value = ''20230601T080000Z'', Params = []\<rparr>,
        \<lparr>Name = ''DTSTART'', Value = ''20230615T120000Z'', Params = []\<rparr>]\<rparr>"

definition plain_event_validated :: Event where
  "plain_event_validated =
     plain_event\<lparr>UID := ''abc'',
       Timestamp := Date 2023 6 1 8 0 0 0 UTC,
       StartDate := Date 2023 6 15 12 0 0 0 UTC,
       EndDate := Date 2023 6 16 12 0 0 0 UTC\<rparr>"

text \<open>A summary line that is folded after \<open>Hello\<close>.\<close>

definition folded_summary :: string where
  "folded_summary = ''SUMMARY:Hello'' @ crlf @ '' World''"

text \<open>A text in which deleting one CR LF SPACE brings another one together.\<close>

definition refolding_text :: string where
  "refolding_text = [CR] @ crlf @ '' '' @ [LF] @ '' ''"

text \<open>An empty line followed by a continuation line that starts with a space.\<close>

definition refolding_lines :: string where
  "refolding_lines = crlf @ crlf @ '' '' @ '' ''"

text \<open>Two PRODID lines, no VERSION line, and one complete event.\<close>

definition two_prodid_document :: string where
  "two_prodid_document =
     ''BEGIN:VCALENDAR'' @ crlf @ ''PRODID:a'' @ crlf @ ''PRODID:b'' @ crlf
       @ ''BEGIN:VEVENT'' @ crlf @ ''UID:abc'' @ crlf @ ''DTSTAMP:20230615T120000Z'' @ crlf
       @ ''DTSTART:20230615T120000Z'' @ crlf @ ''END:VEVENT'' @ crlf
       @ ''END:VCALENDAR'' @ crlf"

subsection \<open>Auxiliary facts\<close>

text \<open>The token streams of two of the inputs, and the equations that run the parser.\<close>

lemma lex_minimal: "lex ''ical1'' (unfold minimal_document) = (minimal_tokens, Closed)"
  by code_simp

lemma lex_no_prodid: "lex ''ical1'' (unfold no_prodid_document) = (no_prodid_tokens, Closed)"
  by code_simp

lemmas parser_eval =
  parse_def parse_loop.simps scanContentLine.simps scanParams.simps scanValues.simps
  scanDelimiter_def expectLineEnd_def appendProperty_def p_next_def p_backup_def nextItem_def
  found_def isItemComponent_def enterScope_def leaveScope_def
  scopeCalendar_def scopeEvent_def scopeAlarm_def NewProperty_def NewCalendar_def zero_item_def

text \<open>
  Where the calendar is validated: \<open>scanDelimiter\<close> returns the error of
  \<open>validateCalendar\<close> at BEGIN:VEVENT, and at END:VCALENDAR it ends the parse without
  calling it.
\<close>

lemma begin_vevent_validates:
  "ityp delimiter = itemBeginVEvent \<Longrightarrow> validateCalendar (cal p) = (Some e, c') \<Longrightarrow>
     scanDelimiter h delimiter p = Inr (Some e, p\<lparr>cal := c'\<rparr>)"
  by (simp add: scanDelimiter_def)

lemma end_vcalendar_not_validated:
  "ityp delimiter = itemEndVCalendar \<Longrightarrow> \<not> scope p > scopeCalendar \<Longrightarrow>
     scanDelimiter h delimiter p = Inr (Some errorDone, p)"
  by (simp add: scanDelimiter_def)

text \<open>The loop of \<open>validateCalendar\<close> in closed form.\<close>

lemma last_value_Cons:
  "last_value nm (p # ps) d = last_value nm ps (if Name p = nm then Value p else d)"
  by (auto simp: last_value_def split: list.splits)

lemma validateCalendar_step_eq:
  "validateCalendar_step p (c, n) =
     (c\<lparr>Prodid := if Name p = ''PRODID'' then Value p else Prodid c,
        Version := if Name p = ''VERSION'' then Value p else Version c,
        Calscale := if Name p = ''CALSCALE'' then Value p else Calscale c,
        Method := if Name p = ''METHOD'' then Value p else Method c\<rparr>,
      n + occurrences ''PRODID'' [p] + occurrences ''VERSION'' [p])"
  by (simp add: validateCalendar_step_def occurrences_def)

lemma occurrences_Cons: "occurrences nm (p # ps) = occurrences nm [p] + occurrences nm ps"
  by (simp add: occurrences_def)

lemma validateCalendar_loop:
  "foldl (\<lambda>s property. validateCalendar_step property s) (c, n) ps =
     (c\<lparr>Prodid := last_value ''PRODID'' ps (Prodid c),
        Version := last_value ''VERSION'' ps (Version c),
        Calscale := last_value ''CALSCALE'' ps (Calscale c),
        Method := last_value ''METHOD'' ps (Method c)\<rparr>,
      n + occurrences ''PRODID'' ps + occurrences ''VERSION'' ps)"
proof (induction ps arbitrary: c n)
  case Nil
  show ?case by (simp add: last_value_def occurrences_def)
next
  case (Cons p ps)
  show ?case
    by (simp add: validateCalendar_step_eq Cons.IH last_value_Cons
        occurrences_Cons [of _ p ps])
qed

text \<open>
  What \<open>validateCalendar\<close> computes: it accepts when the occurrences of PRODID and
  of VERSION add up to two, and each of the four fields takes the value of the last
  property of its name.
\<close>

lemma validateCalendar_accepts:
  "(fst (validateCalendar c) = None) =
     (occurrences ''PRODID'' (Properties c) + occurrences ''VERSION'' (Properties c) = 2)
   \<and> snd (validateCalendar c) =
       c\<lparr>Prodid := last_value ''PRODID'' (Properties c) (Prodid c),
          Version := last_value ''VERSION'' (Properties c) (Version c),
          Calscale := last_value ''CALSCALE'' (Properties c) (Calscale c),
          Method := last_value ''METHOD'' (Properties c) (Method c)\<rparr>"
  by (simp add: validateCalendar_def validateCalendar_loop)

text \<open>With such parameters \<open>parseDate\<close> does not panic.\<close>

lemma parseDate_returns:
  assumes "params_have_values p"
  shows "\<exists>t e. parseDate h p l = Inr (t, e)"
proof -
  have "Values pm \<noteq> []" if "map_of (Params p) k = Some pm" for k pm
    using assms map_of_SomeD [OF that] by (auto simp: params_have_values_def list_all_iff)
  then show ?thesis
    unfolding parseDate_def
    by (auto split: option.splits list.splits intro: prod.exhaust simp: surjective_pairing)
qed

text \<open>
  The loop of \<open>validateEvent\<close> stops with the error at the first DTEND or DURATION when
  the event has both.
\<close>

lemma validateEvent_loop_both:
  assumes "hasProperty ''DTEND'' every" and "hasProperty ''DURATION'' every"
    and "hasProperty ''DTEND'' rest \<or> hasProperty ''DURATION'' rest"
    and "list_all params_have_values rest"
  shows "\<exists>v' n'. validateEvent_loop h l every rest v n = Inr (Some both_error, v', n')"
  using assms(3,4)
proof (induction rest arbitrary: v n)
  case Nil
  then show ?case by simp
next
  case (Cons p rest)
  from Cons.prems(2) obtain t e where pd: "parseDate h p l = Inr (t, e)"
    using parseDate_returns [of p h l] by auto
  from Cons.prems(2) have wf: "list_all params_have_values rest" by simp
  show ?case
  proof (cases "Name p = ''DTEND'' \<or> Name p = ''DURATION''")
    case True
    with assms(1,2) show ?thesis by auto
  next
    case False
    with Cons.prems(1) have "hasProperty ''DTEND'' rest \<or> hasProperty ''DURATION'' rest"
      by (auto split: if_splits)
    from Cons.IH [OF this wf] False pd show ?thesis by simp
  qed
qed

lemma validate_plain_event:
  "validateEvent example_host [] UTC plain_event = Inr (None, plain_event_validated)"
  by code_simp

text \<open>Adding 24 hours to a well-formed \<open>Time\<close> moves it by 86400 seconds.\<close>

lemma Add_24_hours:
  "0 \<le> nanos t \<Longrightarrow> nanos t < 1000000000 \<Longrightarrow>
     Add t (time_Hour * 24) = t\<lparr>seconds := seconds t + 86400\<rparr>"
  by (simp add: Add_def time_Hour_def quo_def rem_def)

text \<open>\<open>unfold\<close> by cases on the text; it leaves characters out and nothing else.\<close>

lemma unfold_Nil: "unfold [] = []"
  by (simp add: unfold.simps)

lemma unfold_Cons:
  "unfold (ch # s) =
     (if strings_HasPrefix (ch # s) (crlf @ '' '') then unfold (drop 2 s) else ch # unfold s)"
  by (simp add: unfold.simps [of "ch # s"])

lemma unfold_subseq: "subseq (unfold str) str"
proof (induction str rule: unfold.induct)
  case (1 str)
  show ?case
  proof (cases str)
    case Nil
    then show ?thesis by (simp add: unfold_Nil)
  next
    case (Cons ch s)
    show ?thesis
    proof (cases "strings_HasPrefix str (crlf @ '' '')")
      case True
      with "1.IH"(1) Cons have "subseq (unfold (drop 3 str)) (drop 3 str)" by simp
      moreover have "subseq (drop 3 str) str"
        using subseq_drop_many [of "drop 3 str" "drop 3 str" "take 3 str"] by simp
      ultimately have "subseq (unfold (drop 3 str)) str"
        by (rule subseq_order.order_trans)
      with True Cons show ?thesis by (simp add: unfold_Cons)
    next
      case False
      with "1.IH"(2) Cons have "subseq (unfold s) s" by simp
      with False Cons show ?thesis by (simp add: unfold_Cons)
    qed
  qed
qed

lemma unfold_without_fold: "\<not> has_fold str \<Longrightarrow> unfold str = str"
  by (induction str) (simp_all add: unfold_Nil unfold_Cons)

text \<open>
  A fold in the unfolded text stands where a deleted fold came directly after CR or
  after CR LF: without such a place in the text, unfolding leaves no fold behind.
\<close>

lemma occurs_drop: "occurs pat (drop n s) \<Longrightarrow> occurs pat s"
proof (induction s arbitrary: n)
  case Nil
  then show ?case by simp
next
  case (Cons ch s)
  show ?case
  proof (cases n)
    case 0
    with Cons.prems show ?thesis by simp
  next
    case (Suc k)
    with Cons.prems have "occurs pat (drop k s)" by simp
    from Cons.IH [OF this] show ?thesis by simp
  qed
qed

text \<open>
  The first character of an unfolded text: the text starts with a fold, or with that
  character.
\<close>

lemma unfold_starts:
  assumes "unfold s = x # t"
  shows "strings_HasPrefix s (crlf @ '' '') \<or> (\<exists>s'. s = x # s' \<and> t = unfold s')"
proof (cases s)
  case Nil
  with assms show ?thesis by (simp add: unfold_Nil)
next
  case (Cons ch s')
  with assms show ?thesis by (auto simp: unfold_Cons split: if_splits)
qed

lemma HasPrefix_fold:
  "strings_HasPrefix s (crlf @ '' '') = (\<exists>r. s = CR # LF # CHR '' '' # r)"
  by (cases s rule: list.exhaust; cases "tl s"; cases "tl (tl s)")
     (auto simp: strings_HasPrefix_def crlf_def)

lemma unfold_no_new_fold:
  assumes "\<not> occurs [CR, CR, LF, CHR '' ''] s" and "\<not> occurs [CR, LF, CR, LF, CHR '' ''] s"
  shows "\<not> has_fold (unfold s)"
  using assms
proof (induction s rule: unfold.induct)
  case (1 s)
  show ?case
  proof (cases s)
    case Nil
    then show ?thesis by (simp add: unfold_Nil)
  next
    case (Cons ch s')
    show ?thesis
    proof (cases "strings_HasPrefix s (crlf @ '' '')")
      case True
      from "1.prems" have "\<not> occurs [CR, CR, LF, CHR '' ''] (drop 3 s)"
        and "\<not> occurs [CR, LF, CR, LF, CHR '' ''] (drop 3 s)"
        by (auto dest: occurs_drop)
      with "1.IH"(1) True Cons have "\<not> has_fold (unfold (drop 3 s))" by simp
      with True Cons show ?thesis by (simp add: unfold_Cons)
    next
      case False
      from "1.prems" Cons have tail: "\<not> occurs [CR, CR, LF, CHR '' ''] s'"
        "\<not> occurs [CR, LF, CR, LF, CHR '' ''] s'" by simp_all
      with "1.IH"(2) False Cons have rest: "\<not> has_fold (unfold s')" by simp
      have "\<not> strings_HasPrefix (ch # unfold s') (crlf @ '' '')"
      proof
        assume "strings_HasPrefix (ch # unfold s') (crlf @ '' '')"
        then obtain r where ch: "ch = CR" and u1: "unfold s' = LF # CHR '' '' # r"
          by (auto simp: HasPrefix_fold)
        from unfold_starts [OF u1] show False
        proof
          assume "strings_HasPrefix s' (crlf @ '' '')"
          then obtain q where "s' = CR # LF # CHR '' '' # q" by (auto simp: HasPrefix_fold)
          with Cons ch have "strings_HasPrefix s [CR, CR, LF, CHR '' '']"
            by (simp add: strings_HasPrefix_def)
          with "1.prems"(1) Cons show False by simp
        next
          assume "\<exists>s''. s' = LF # s'' \<and> CHR '' '' # r = unfold s''"
          then obtain s'' where s': "s' = LF # s''" and u2: "unfold s'' = CHR '' '' # r" by auto
          from unfold_starts [OF u2] show False
          proof
            assume "strings_HasPrefix s'' (crlf @ '' '')"
            then obtain q where "s'' = CR # LF # CHR '' '' # q" by (auto simp: HasPrefix_fold)
            with Cons ch s' have "strings_HasPrefix s [CR, LF, CR, LF, CHR '' '']"
              by (simp add: strings_HasPrefix_def)
            with "1.prems"(2) Cons show False by simp
          next
            assume "\<exists>q. s'' = CHR '' '' # q \<and> r = unfold q"
            then obtain q where "s'' = CHR '' '' # q" by auto
            with Cons ch s' have "strings_HasPrefix s (crlf @ '' '')"
              by (simp add: HasPrefix_fold)
            with False show False by simp
          qed
        qed
      qed
      with rest False Cons show ?thesis by (simp add: unfold_Cons)
    qed
  qed
qed

subsection \<open>The claims\<close>

text \<open>
  Claim C1 (a document without PRODID or without VERSION is rejected, also when it has
  no event) does not hold of the code: the calendar is validated when BEGIN:VEVENT is
  read and nowhere else. A calendar with VERSION only and no event is returned as the
  result, on every machine and for every location.
\<close>

theorem C1_no_event_not_validated:
  "Parse h (Inr no_prodid_document) l =
     Inr (Inr \<lparr>calendar =
                 \<lparr>Prodid = [], Version = [], Calscale = ''GREGORIAN'', Method = [],
                    Properties = [\<lparr>Name = ''VERSION'', Value = ''2.0'', Params = []\<rparr>],
                    Events = []\<rparr>,
               event_objects = [], alarm_objects = []\<rparr>)"
  by (simp add: Parse_def lex_no_prodid no_prodid_tokens_def parser_eval)

text \<open>
  Claim C2 as stated (the minimal document parses to a calendar with Prodid \<open>-\<close>, Version
  \<open>2.0\<close>, no events and no properties) fails: the two lines are kept as the two
  top-level properties, and the fields Prodid and Version are empty.
\<close>

theorem C2_counterexample:
  "Parse example_host (Inr minimal_document) None = Inr (Inr minimal_result)
   \<and> Properties (calendar minimal_result) \<noteq> []
   \<and> Prodid (calendar minimal_result) \<noteq> ''-''
   \<and> Version (calendar minimal_result) \<noteq> ''2.0''"
  by (simp add: Parse_def lex_minimal minimal_tokens_def minimal_result_def parser_eval)

text \<open>
  Claim C2, amended: on every machine and for every location, the minimal document
  parses; the calendar returned has no events, and its top-level properties are the two
  lines PRODID and VERSION, in this order.
\<close>

theorem C2_minimal_document:
  "\<exists>d. Parse h (Inr minimal_document) l = Inr (Inr d)
       \<and> Events (calendar d) = []
       \<and> Properties (calendar d) =
           [\<lparr>Name = ''PRODID'', Value = ''-'', Params = []\<rparr>,
            \<lparr>Name = ''VERSION'', Value = ''2.0'', Params = []\<rparr>]"
  by (simp add: Parse_def lex_minimal minimal_tokens_def parser_eval)

text \<open>
  Claim C3 (an error token is the last token of the stream, so there is at most one) does
  not hold of the code. After BEGIN:VCALENDAR the two bytes \<open>xy\<close> are not CRLF:
  \<open>lexNewLine\<close> sends the error token, does not return, and sends \<open>xy\<close> as a line-end
  token and then the end-of-input token. After a quoted parameter value that is not
  closed, \<open>lexParamValue\<close> sends the error token and hands over to \<open>lexContentLine\<close>,
  which sends a second error token.
\<close>

theorem C3_tokens_after_error:
  "lex ''Test'' ''BEGIN:VCALENDARxy'' =
     ([\<lparr>ityp = itemBeginVCalendar, ipos = 0, val = ''BEGIN:VCALENDAR'', args = []\<rparr>,
       \<lparr>ityp = itemError, ipos = 15, val = no_crlf_message, args = []\<rparr>,
       \<lparr>ityp = itemLineEnd, ipos = 15, val = ''xy'', args = []\<rparr>,
       \<lparr>ityp = itemEOF, ipos = 17, val = [], args = []\<rparr>],
      Closed)
   \<and> \<not> error_is_last (fst (lex ''Test'' ''BEGIN:VCALENDARxy''))
   \<and> map ityp (fst (lex ''Test'' (''A;B='' @ dq @ ''c'' @ crlf))) =
       [itemComponent, itemSemiColon, itemParamName, itemEqual, itemParamValue,
        itemError, itemError]"
  by code_simp

text \<open>
  Claim C4 (an END that does not match the open scope makes parsing return a structural
  error) does not hold of the code for END:VALARM, which is handled without a test of
  the scope. Inside an event with no alarm \<open>p.a\<close> is nil and \<open>validateAlarm\<close>
  dereferences it: the program panics. After a complete alarm a second END:VALARM
  validates the same alarm again, appends it to the event a second time and leaves the
  event's scope; the document is returned as if it were well formed.
\<close>

theorem C4_stray_end_valarm:
  "Parse example_host (Inr stray_end_valarm_document) None = Inl nil_dereference
   \<and> (case Parse example_host (Inr double_end_valarm_document) None of
         Inr (Inr d) \<Rightarrow> map Alarms (event_objects d) = [[0, 0]]
       | _ \<Rightarrow> False)"
  by code_simp

text \<open>
  Claim C5 (a value of eight characters without \<open>Z\<close> and without TZID is that date at
  midnight in the location that the caller supplies) does not hold of the code: such a
  value is parsed by \<open>time.Parse\<close>, whose result is in UTC. For a caller five hours west
  of UTC, \<open>20230615\<close> becomes midnight UTC, which is five hours before midnight there.
\<close>

theorem C5_bare_date_is_utc:
  "parseDate example_host \<lparr>Name = ''DTSTART'', Value = ''20230615'', Params = []\<rparr>
       (FixedZone ''EST'' (- 18000))
     = Inr (Date 2023 6 15 0 0 0 0 UTC, None)
   \<and> Date 2023 6 15 0 0 0 0 UTC \<noteq> Date 2023 6 15 0 0 0 0 (FixedZone ''EST'' (- 18000))
   \<and> seconds (Date 2023 6 15 0 0 0 0 (FixedZone ''EST'' (- 18000)))
       = seconds (Date 2023 6 15 0 0 0 0 UTC) + 18000"
  by code_simp

text \<open>
  Claim C6 as stated fails twice. Unfolding deletes the continuation, space included:
  the example becomes \<open>SUMMARY:HelloWorld\<close>, not \<open>SUMMARY:Hello World\<close>. And unfolding
  is not idempotent: in \<open>CR CR LF SPACE LF SPACE\<close> and in \<open>CR LF CR LF SPACE SPACE\<close>
  the deletion of the one occurrence leaves \<open>CR LF SPACE\<close>, which a second unfolding
  deletes.
\<close>

theorem C6_counterexample:
  "unfold folded_summary \<noteq> ''SUMMARY:Hello World''
   \<and> unfold refolding_text = crlf @ '' ''
   \<and> unfold (unfold refolding_text) \<noteq> unfold refolding_text
   \<and> unfold refolding_lines = crlf @ '' ''
   \<and> unfold (unfold refolding_lines) \<noteq> unfold refolding_lines"
  by code_simp

text \<open>
  Claim C6, amended: unfolding preserves order (its result is the text with some
  characters left out), and it is idempotent on every text in which neither
  \<open>CR CR LF SPACE\<close> nor \<open>CR LF CR LF SPACE\<close> occurs. A continuation is deleted with
  its space: the example becomes \<open>SUMMARY:HelloWorld\<close>, and lexing that yields the
  name, the colon and the one value token \<open>HelloWorld\<close>.
\<close>

theorem C6_unfold:
  "subseq (unfold str) str
   \<and> (\<not> occurs [CR, CR, LF, CHR '' ''] str \<and> \<not> occurs [CR, LF, CR, LF, CHR '' ''] str
        \<longrightarrow> unfold (unfold str) = unfold str)
   \<and> unfold folded_summary = ''SUMMARY:HelloWorld''
   \<and> lex ''ical1'' (unfold folded_summary) =
       ([\<lparr>ityp = itemComponent, ipos = 0, val = ''SUMMARY'', args = []\<rparr>,
         \<lparr>ityp = itemColon, ipos = 7, val = '':'', args = []\<rparr>,
         \<lparr>ityp = itemValue, ipos = 8, val = ''HelloWorld'', args = []\<rparr>],
        Closed)"
proof -
  have "unfold folded_summary = ''SUMMARY:HelloWorld''"
    by code_simp
  moreover have "lex ''ical1'' (unfold folded_summary) =
       ([\<lparr>ityp = itemComponent, ipos = 0, val = ''SUMMARY'', args = []\<rparr>,
         \<lparr>ityp = itemColon, ipos = 7, val = '':'', args = []\<rparr>,
         \<lparr>ityp = itemValue, ipos = 8, val = ''HelloWorld'', args = []\<rparr>],
        Closed)"
    by code_simp
  moreover have "unfold (unfold str) = unfold str"
    if "\<not> occurs [CR, CR, LF, CHR '' ''] str" and "\<not> occurs [CR, LF, CR, LF, CHR '' ''] str"
    using unfold_without_fold [OF unfold_no_new_fold [OF that]] .
  ultimately show ?thesis
    using unfold_subseq [of str] by blast
qed

text \<open>
  Claim C6, witness: the folded example contains a fold and neither of the two
  sequences; unfolding it twice gives what unfolding it once gives.
\<close>

theorem C6_witness:
  "\<not> occurs [CR, CR, LF, CHR '' ''] folded_summary
   \<and> \<not> occurs [CR, LF, CR, LF, CHR '' ''] folded_summary
   \<and> has_fold folded_summary
   \<and> unfold (unfold folded_summary) = unfold folded_summary
   \<and> subseq (unfold folded_summary) folded_summary"
proof -
  have h: "\<not> occurs [CR, CR, LF, CHR '' ''] folded_summary"
    "\<not> occurs [CR, LF, CR, LF, CHR '' ''] folded_summary" "has_fold folded_summary"
    by code_simp+
  from C6_unfold [of folded_summary]
  have "subseq (unfold folded_summary) folded_summary"
    and "\<not> occurs [CR, CR, LF, CHR '' ''] folded_summary
           \<and> \<not> occurs [CR, LF, CR, LF, CHR '' ''] folded_summary
         \<longrightarrow> unfold (unfold folded_summary) = unfold folded_summary"
    by blast+
  with h show ?thesis by blast
qed

text \<open>
  Claim C7 (the calendar is accepted exactly when PRODID and VERSION each occur once)
  does not hold of the code: \<open>validateCalendar\<close> counts both names in one counter and
  compares it with two. Two PRODID lines and no VERSION line are accepted, and a
  document with them and an event parses to a calendar without a version.
\<close>

theorem C7_two_prodid_accepted:
  "fst (validateCalendar
          (NewCalendar\<lparr>Properties := [\<lparr>Name = ''PRODID'', Value = ''a'', Params = []\<rparr>,
                                      \<lparr>Name = ''PRODID'', Value = ''b'', Params = []\<rparr>]\<rparr>)) = None
   \<and> occurrences ''VERSION'' [\<lparr>Name = ''PRODID'', Value = ''a'', Params = []\<rparr>,
                               \<lparr>Name = ''PRODID'', Value = ''b'', Params = []\<rparr>] = 0
   \<and> (case Parse example_host (Inr two_prodid_document) None of
         Inr (Inr d) \<Rightarrow>
           Prodid (calendar d) = ''b'' \<and> Version (calendar d) = [] \<and> Events (calendar d) = [0]
       | _ \<Rightarrow> False)"
  by code_simp

text \<open>
  Claim C8: an event that has both a DTEND and a DURATION property fails validation
  with the error for this pair, wherever the two stand among its properties. (The
  parameters of the properties have values, as they have in every sound state of the
  parser.)
\<close>

theorem C8_dtend_and_duration:
  assumes "hasProperty ''DTEND'' (EventProperties v)"
    and "hasProperty ''DURATION'' (EventProperties v)"
    and "list_all params_have_values (EventProperties v)"
  shows "\<exists>v'. validateEvent h method l v = Inr (Some both_error, v')"
proof -
  from validateEvent_loop_both [OF assms(1) assms(2) _ assms(3), of h l v "[]"] assms(1)
  obtain v' n' where
    "validateEvent_loop h l (EventProperties v) (EventProperties v) v [] = Inr (Some both_error, v', n')"
    by blast
  then show ?thesis by (simp add: validateEvent_def)
qed

text \<open>
  Claim C8, witness: an event with UID, DTSTART, DURATION and then DTEND is rejected
  with that error.
\<close>

theorem C8_witness:
  "hasProperty ''DTEND'' (EventProperties both_event)
   \<and> hasProperty ''DURATION'' (EventProperties both_event)
   \<and> list_all params_have_values (EventProperties both_event)
   \<and> (\<exists>v'. validateEvent example_host [] UTC both_event = Inr (Some both_error, v'))"
proof -
  have a: "hasProperty ''DTEND'' (EventProperties both_event)"
    and b: "hasProperty ''DURATION'' (EventProperties both_event)"
    and c: "list_all params_have_values (EventProperties both_event)"
    by (simp_all add: both_event_def NewEvent_def params_have_values_def)
  from C8_dtend_and_duration [OF a b c] a b c show ?thesis by blast
qed

text \<open>
  Claim C9: when validation accepts an event that has no DTEND property, the EndDate of
  the event is the instant 24 hours, that is 86400 seconds or 86400000000000
  nanoseconds, after its StartDate, in the same zone; for a StartDate whose nanoseconds
  are below a second, as a parsed one has them, EndDate is StartDate with 86400 more
  seconds.
\<close>

theorem C9_default_end:
  assumes "validateEvent h method l v = Inr (None, v')"
    and "\<not> hasProperty ''DTEND'' (EventProperties v)"
  shows "seconds (EndDate v') * 1000000000 + nanos (EndDate v')
           = seconds (StartDate v') * 1000000000 + nanos (StartDate v') + 24 * 3600 * 1000000000
         \<and> zone (EndDate v') = zone (StartDate v')
         \<and> (0 \<le> nanos (StartDate v') \<and> nanos (StartDate v') < 1000000000 \<longrightarrow>
              EndDate v' = (StartDate v')\<lparr>seconds := seconds (StartDate v') + 86400\<rparr>)"
proof -
  from assms(1) obtain v1 n1 where
    loop: "validateEvent_loop h l (EventProperties v) (EventProperties v) v [] = Inr (None, v1, n1)"
    by (auto simp: validateEvent_def split: sum.splits option.splits if_splits)
  from validateEvent_loop_same [OF loop] assms(2)
  have "\<not> hasProperty ''DTEND'' (EventProperties v1)" by simp
  with assms(1) loop have "v' = v1\<lparr>EndDate := Add (StartDate v1) (time_Hour * 24)\<rparr>"
    by (auto simp: validateEvent_def split: if_splits)
  then have e: "EndDate v' = Add (StartDate v') (time_Hour * 24)" by simp
  show ?thesis
    unfolding e by (simp add: Add_def time_Hour_def quo_def rem_def Let_def)
qed

text \<open>
  Claim C9, witness: an event with UID, DTSTAMP and a DTSTART at noon on 2023-06-15 is
  accepted; its EndDate is noon on 2023-06-16, 86400 seconds later.
\<close>

theorem C9_witness:
  "validateEvent example_host [] UTC plain_event = Inr (None, plain_event_validated)
   \<and> \<not> hasProperty ''DTEND'' (EventProperties plain_event)
   \<and> 0 \<le> nanos (StartDate plain_event_validated)
   \<and> nanos (StartDate plain_event_validated) < 1000000000
   \<and> EndDate plain_event_validated
       = (StartDate plain_event_validated)\<lparr>seconds := seconds (StartDate plain_event_validated) + 86400\<rparr>
   \<and> seconds (EndDate plain_event_validated) = 63822513600
   \<and> seconds (StartDate plain_event_validated) = 63822427200"
proof -
  have n: "\<not> hasProperty ''DTEND'' (EventProperties plain_event)"
    by (simp add: plain_event_def NewEvent_def)
  have r: "0 \<le> nanos (StartDate plain_event_validated)"
    "nanos (StartDate plain_event_validated) < 1000000000"
    "seconds (StartDate plain_event_validated) = 63822427200"
    by (simp_all add: plain_event_validated_def Date_def daysBeforeYear_def daysBefore_def isLeap_def)
  from C9_default_end [OF validate_plain_event n] r
  have "EndDate plain_event_validated
       = (StartDate plain_event_validated)\<lparr>seconds := seconds (StartDate plain_event_validated) + 86400\<rparr>"
    by blast
  with validate_plain_event n r show ?thesis by simp
qed

text \<open>
  Claim C10 (when \<open>lexNewLine\<close> finds no CRLF it stays inside the input) does not hold of
  the code. On \<open>BEGIN:VCALENDARx\<close> one byte is left after the delimiter: the error token is
  sent, \<open>pos\<close> becomes 17 in an input of 16 bytes, and the slice \<open>input[15:17]\<close> that
  \<open>emit\<close> takes panics.
\<close>

theorem C10_slice_out_of_bounds:
  "lex ''Test'' ''BEGIN:VCALENDARx'' =
     ([\<lparr>ityp = itemBeginVCalendar, ipos = 0, val = ''BEGIN:VCALENDAR'', args = []\<rparr>,
       \<lparr>ityp = itemError, ipos = 15, val = no_crlf_message, args = []\<rparr>],
      Faulted (Panic ''slice bounds out of range''))
   \<and> lexNewLine \<lparr>name = ''Test'', input = ''BEGIN:VCALENDARx'', start = 15, pos = 15, width = 0\<rparr> =
       ([\<lparr>ityp = itemError, ipos = 15, val = no_crlf_message, args = []\<rparr>],
        Inl (Panic ''slice bounds out of range''))"
  by code_simp

end
